theory Spec2Isabelle
  imports Complex_Main "HOL-Library.Word" "HOL-Library.Log_Nat"
begin

section \<open>The SAC test-fixture generator (generate\_test\_sac.py)\<close>

text \<open>
  The script builds "SAC v1" binary containers from two int16 arrays. This theory embeds
  its functions as HOL functions and proves the properties stated about them.

  Conventions of the embedding:
  \<^item> a byte is an \<open>8 word\<close>, a Python \<open>bytes\<close> value a list of bytes;
  \<^item> Python integers are \<open>int\<close> (unbounded);
  \<^item> an integer-typed \<open>numpy\<close> array is the list of its element values in C
    (row-major) order, a two-dimensional one the list of its rows; the element values
    are \<open>int\<close>s, and the conversion to \<open>np.int16\<close> keeps the low 16 bits
    (two's complement), as the integer-to-integer cast does;
  \<^item> the host is little-endian, so that \<open>tobytes\<close> of an int16 array writes the
    low byte of each element first;
  \<^item> a raised exception is the \<open>Inl\<close> of a result of type \<open>error + 'a\<close>.
\<close>

subsection \<open>Bytes and exceptions\<close>

type_synonym byte = "8 word"
type_synonym i16 = "16 word"

datatype error =
    AssertionError string
  | StructError

text \<open>The \<open>n\<close> low-order bytes of an integer, least significant byte first.\<close>

fun le_bytes :: "nat \<Rightarrow> int \<Rightarrow> byte list" where
  "le_bytes 0 v = []"
| "le_bytes (Suc n) v = word_of_int v # le_bytes n (v div 256)"

subsection \<open>\<open>struct.pack('<4sBBBBIIII', ...)\<close>\<close>

text \<open>
  Python's \<open>struct.pack\<close> with the format \<open><4sBBBBIIII\<close>: standard sizes, no
  alignment padding, little-endian. A \<open>4s\<close> field copies four bytes of its argument
  (cut or padded with zero bytes); a \<open>B\<close> field is one byte and an \<open>I\<close> field four
  bytes, and both raise \<open>struct.error\<close> when the argument is outside the range of the
  unsigned type.
\<close>

definition pack_4s :: "byte list \<Rightarrow> error + byte list" where
  "pack_4s s = Inr (take 4 s @ replicate (4 - length s) 0)"

definition fits_B :: "int \<Rightarrow> bool" where
  "fits_B v = (0 \<le> v \<and> v \<le> 255)"

definition fits_I :: "int \<Rightarrow> bool" where
  "fits_I v = (0 \<le> v \<and> v \<le> 4294967295)"

definition pack_B :: "int \<Rightarrow> error + byte list" where
  "pack_B v = (if fits_B v then Inr (le_bytes 1 v) else Inl StructError)"

definition pack_I :: "int \<Rightarrow> error + byte list" where
  "pack_I v = (if fits_I v then Inr (le_bytes 4 v) else Inl StructError)"

text \<open>The packed fields are concatenated in order; the first failing field raises.\<close>

fun pack_fields :: "(error + byte list) list \<Rightarrow> error + byte list" where
  "pack_fields [] = Inr []"
| "pack_fields (r # rs) =
     (case r of
        Inl e \<Rightarrow> Inl e
      | Inr bs \<Rightarrow> (case pack_fields rs of Inl e \<Rightarrow> Inl e | Inr cs \<Rightarrow> Inr (bs @ cs)))"

definition struct_pack_header ::
  "byte list \<Rightarrow> int \<Rightarrow> int \<Rightarrow> int \<Rightarrow> int \<Rightarrow> int \<Rightarrow> int \<Rightarrow> int \<Rightarrow> int \<Rightarrow> error + byte list" where
  "struct_pack_header magic flags dtype_code arrays_count reserved la lb w h =
     pack_fields [pack_4s magic, pack_B flags, pack_B dtype_code, pack_B arrays_count,
       pack_B reserved, pack_I la, pack_I lb, pack_I w, pack_I h]"

subsection \<open>The encoder: \<open>to_c_contiguous_i16\<close> and \<open>build_sac\<close>\<close>

definition SAC_MAGIC :: "byte list" where
  "SAC_MAGIC = map of_char ''SAC1''"

definition DTYPE_INT16 :: int where
  "DTYPE_INT16 = 1"

text \<open>
  \<open>np.asarray(x, dtype=np.int16)\<close>: every element is converted to int16. Making the
  array C-contiguous does not change the element sequence in C order, which is what the
  list stands for.
\<close>

definition to_c_contiguous_i16 :: "int list \<Rightarrow> i16 list" where
  "to_c_contiguous_i16 x = map word_of_int x"

text \<open>\<open>a.tobytes(order='C')\<close> of an int16 array: two bytes per element, low byte first.\<close>

definition tobytes :: "i16 list \<Rightarrow> byte list" where
  "tobytes a = concat (map (\<lambda>x. le_bytes 2 (uint x)) a)"

text \<open>
  \<open>if width and height:\<close> is taken when both integers are non-zero. The two
  \<open>assert\<close>s are checked in order, before the header is packed.
\<close>

definition build_sac :: "int list \<Rightarrow> int list \<Rightarrow> int \<Rightarrow> int \<Rightarrow> error + byte list" where
  "build_sac a0 b0 width height =
     (let a = to_c_contiguous_i16 a0;
          b = to_c_contiguous_i16 b0;
          length_a = int (length a);
          length_b = int (length b)
      in if (width \<noteq> 0 \<and> height \<noteq> 0) \<and> length_a \<noteq> width * height
           then Inl (AssertionError ''A length != width*height'')
         else if (width \<noteq> 0 \<and> height \<noteq> 0) \<and> length_b \<noteq> width * height
           then Inl (AssertionError ''B length != width*height'')
         else (case struct_pack_header SAC_MAGIC 0 DTYPE_INT16 2 0
                      length_a length_b width height of
                 Inl e \<Rightarrow> Inl e
               | Inr header \<Rightarrow> Inr (header @ tobytes a @ tobytes b)))"

text \<open>The call \<open>build_sac(a, b)\<close>, with the defaults \<open>width=0, height=0\<close>.\<close>

definition build_sac_default :: "int list \<Rightarrow> int list \<Rightarrow> error + byte list" where
  "build_sac_default a0 b0 = build_sac a0 b0 0 0"

subsection \<open>Reading a SAC container\<close>

text \<open>
  The script has no decoder. The functions of this section say what the words of the
  format description mean, independently of the encoder: the value of a little-endian
  unsigned field, the value of a little-endian two's complement 16-bit field, and a
  reference decoder that reads the two length fields of the header and then that many
  16-bit values.
\<close>

definition read_u_le :: "byte list \<Rightarrow> nat" where
  "read_u_le bs = foldr (\<lambda>b n. unat b + 256 * n) bs 0"

definition read_i16_le :: "byte list \<Rightarrow> int" where
  "read_i16_le bs = (let n = int (read_u_le bs) in if n < 32768 then n else n - 65536)"

fun read_i16s :: "nat \<Rightarrow> byte list \<Rightarrow> int list" where
  "read_i16s 0 bs = []"
| "read_i16s (Suc n) bs = read_i16_le (take 2 bs) # read_i16s n (drop 2 bs)"

definition header_size :: nat where
  "header_size = 24"

definition reference_decode :: "byte list \<Rightarrow> (int list \<times> int list) option" where
  "reference_decode bs =
     (if length bs < header_size then None
      else let la = read_u_le (take 4 (drop 8 bs));
               lb = read_u_le (take 4 (drop 12 bs));
               body = drop header_size bs
           in if length body < 2 * la + 2 * lb then None
              else Some (read_i16s la body, read_i16s lb (drop (2 * la) body)))"

subsection \<open>Arrays of integers and the checkerboard generator\<close>

text \<open>
  A two-dimensional integer array is the list of its rows. \<open>np.mgrid[0:height, 0:width]\<close>
  gives the two index arrays of shape \<open>height \<times> width\<close>: in the first, every element is
  its row index, in the second its column index.
\<close>

type_synonym matrix = "int list list"

definition mgrid :: "int \<Rightarrow> int \<Rightarrow> matrix \<times> matrix" where
  "mgrid height width =
     (map (\<lambda>i. replicate (nat width) (int i)) [0..<nat height],
      replicate (nat height) (map int [0..<nat width]))"

text \<open>Element-wise operations on one array and on two arrays of the same shape.\<close>

definition map_matrix :: "('a \<Rightarrow> 'b) \<Rightarrow> 'a list list \<Rightarrow> 'b list list" where
  "map_matrix f m = map (map f) m"

definition zip_matrix ::
  "('a \<Rightarrow> 'b \<Rightarrow> 'c) \<Rightarrow> 'a list list \<Rightarrow> 'b list list \<Rightarrow> 'c list list" where
  "zip_matrix f a b = map2 (map2 f) a b"

text \<open>\<open>.astype(np.int16)\<close> on an integer: the low 16 bits, read as two's complement.\<close>

definition astype_i16 :: "int \<Rightarrow> int" where
  "astype_i16 v = sint (word_of_int v :: i16)"

text \<open>\<open>a.ravel()\<close>: the elements in row-major order.\<close>

definition ravel :: "matrix \<Rightarrow> int list" where
  "ravel m = concat m"

text \<open>
  \<open>checker = ((x // square_size + y // square_size) % 2 * 1000).astype(np.int16)\<close>.
  The operators \<open>%\<close> and \<open>*\<close> associate to the left. Floor division and modulus of
  integers are \<open>div\<close> and \<open>mod\<close>, also for a zero divisor, where NumPy's integer
  floor division gives 0. The index arrays hold 64-bit integers; \<open>square_size\<close> is
  taken within their range, and no intermediate value leaves it.
\<close>

definition generate_checkerboard_mask :: "int \<Rightarrow> int \<Rightarrow> int \<Rightarrow> matrix \<times> matrix" where
  "generate_checkerboard_mask width height square_size =
     (let (y, x) = mgrid height width;
          checker = map_matrix astype_i16
            (map_matrix (\<lambda>v. v mod 2 * 1000)
              (zip_matrix (+) (map_matrix (\<lambda>v. v div square_size) x)
                              (map_matrix (\<lambda>v. v div square_size) y)))
      in (checker, checker))"

text \<open>The call with the default \<open>square_size=50\<close>.\<close>

definition generate_checkerboard_mask_default :: "int \<Rightarrow> int \<Rightarrow> matrix \<times> matrix" where
  "generate_checkerboard_mask_default width height = generate_checkerboard_mask width height 50"

subsection \<open>Double precision arithmetic\<close>

text \<open>
  The radial and the gradient generator compute in NumPy's \<open>float64\<close>, the IEEE 754
  binary64 format. A finite double is a rational number \<open>m * 2 ^ e\<close> with
  \<open>\<bar>m\<bar> < 2 ^ 53\<close>; every operation returns the double nearest to the exact result,
  ties going to the even significand. The model keeps the exponent unbounded: overflow
  needs a magnitude of \<open>2 ^ 1024\<close> and gradual underflow one below \<open>2 ^ -1022\<close>, and
  the generators, whose index arrays hold 64-bit integers, produce neither.

  \<open>rne\<close> rounds a rational to the nearest integer, ties to even. \<open>binade q\<close> is the
  integer \<open>b\<close> with \<open>2 ^ b \<le> \<bar>q\<bar> < 2 ^ (b + 1)\<close>, computed from the bit length of
  the integer part of \<open>\<bar>q\<bar>\<close> or of \<open>1 / \<bar>q\<bar>\<close>. \<open>fl q\<close> is \<open>q\<close> rounded to a
  double: \<open>q\<close> is scaled to a significand between \<open>2 ^ 52\<close> and \<open>2 ^ 53\<close>, rounded to
  an integer and scaled back.
\<close>

definition rne :: "rat \<Rightarrow> int" where
  "rne q = (let n = \<lfloor>q\<rfloor>; r = q - of_int n
            in if r < 1 / 2 then n else if 1 / 2 < r then n + 1
               else if even n then n else n + 1)"

definition binade :: "rat \<Rightarrow> int" where
  "binade q = (if 1 \<le> \<bar>q\<bar> then bitlen \<lfloor>\<bar>q\<bar>\<rfloor> - 1 else - bitlen (\<lceil>1 / \<bar>q\<bar>\<rceil> - 1))"

definition fl :: "rat \<Rightarrow> rat" where
  "fl q = (if q = 0 then 0
           else let e = binade q - 52 in of_int (rne (q / 2 powi e)) * 2 powi e)"

definition is_double :: "rat \<Rightarrow> bool" where
  "is_double q = (fl q = q)"

text \<open>
  The arithmetic operations, and the conversion of an integer operand to a double that
  NumPy and Python make before a mixed operation. A quotient is only formed with a
  non-zero divisor where the generators are used with positive dimensions.
\<close>

definition f_of_int :: "int \<Rightarrow> rat" where
  "f_of_int i = fl (of_int i)"

definition fadd :: "rat \<Rightarrow> rat \<Rightarrow> rat" where
  "fadd a b = fl (a + b)"

definition fsub :: "rat \<Rightarrow> rat \<Rightarrow> rat" where
  "fsub a b = fl (a - b)"

definition fmul :: "rat \<Rightarrow> rat \<Rightarrow> rat" where
  "fmul a b = fl (a * b)"

definition fdiv :: "rat \<Rightarrow> rat \<Rightarrow> rat" where
  "fdiv a b = fl (a / b)"

text \<open>
  The square root, correctly rounded as IEEE 754 requires. \<open>isqrt\<close> is the integer
  square root. The argument is scaled by an even power of two to \<open>x\<close> between
  \<open>2 ^ 104\<close> and \<open>2 ^ 106\<close>, so that its root lies between \<open>2 ^ 52\<close> and \<open>2 ^ 53\<close>;
  \<open>m\<close> is the integer part of that root, and the root is rounded up when
  it exceeds \<open>m + 1 / 2\<close>.
\<close>

function isqrt :: "int \<Rightarrow> int" where
  "isqrt n = (if n \<le> 0 then 0
              else let r = 2 * isqrt (n div 4) in if (r + 1) * (r + 1) \<le> n then r + 1 else r)"
  by pat_completeness auto
termination
  by (relation "measure nat") auto

declare isqrt.simps [simp del]

definition fsqrt :: "rat \<Rightarrow> rat" where
  "fsqrt q = (if q \<le> 0 then 0
              else let e = (binade q - 104) div 2;
                       x = q / 2 powi (2 * e);
                       m = isqrt \<lfloor>x\<rfloor>;
                       h = (of_int m + 1 / 2) * (of_int m + 1 / 2)
                   in of_int (if x < h then m else if h < x then m + 1
                              else if even m then m else m + 1) * 2 powi e)"

text \<open>
  \<open>.astype(np.int16)\<close> on a double: the fraction is cut off (rounding towards zero).
  The conversion goes through a 32-bit integer: of a value in the int32 range the low 16
  bits are kept, so that a value in the int16 range is unchanged; a value outside the
  int32 range gives 0.
\<close>

definition ftrunc :: "rat \<Rightarrow> int" where
  "ftrunc q = (if 0 \<le> q then \<lfloor>q\<rfloor> else \<lceil>q\<rceil>)"

definition f_astype_i16 :: "rat \<Rightarrow> int" where
  "f_astype_i16 v =
     (let t = ftrunc v
      in if - 2147483648 \<le> t \<and> t \<le> 2147483647 then astype_i16 t else 0)"

subsection \<open>The gradient and the radial generator\<close>

text \<open>
  \<open>a = ((x / width) * 2000 - 1000).astype(np.int16)\<close> and the same for \<open>b\<close> with
  \<open>y\<close> and \<open>height\<close>. The index arrays hold integers; the division converts both
  operands to doubles.
\<close>

definition generate_gradient_mask :: "int \<Rightarrow> int \<Rightarrow> matrix \<times> matrix" where
  "generate_gradient_mask width height =
     (let (y, x) = mgrid height width;
          a = map_matrix f_astype_i16
                (map_matrix (\<lambda>v. fsub v (f_of_int 1000))
                  (map_matrix (\<lambda>v. fmul v (f_of_int 2000))
                    (map_matrix (\<lambda>v. fdiv (f_of_int v) (f_of_int width)) x)));
          b = map_matrix f_astype_i16
                (map_matrix (\<lambda>v. fsub v (f_of_int 1000))
                  (map_matrix (\<lambda>v. fmul v (f_of_int 2000))
                    (map_matrix (\<lambda>v. fdiv (f_of_int v) (f_of_int height)) y)))
      in (a, b))"

text \<open>
  The value that \<open>generate_gradient_mask\<close> computes for the index \<open>i\<close> along an axis of
  \<open>n\<close> pixels: the expression \<open>((i / n) * 2000 - 1000).astype(np.int16)\<close> on one element.
\<close>

definition gradient_raw :: "int \<Rightarrow> int \<Rightarrow> rat" where
  "gradient_raw i n = fsub (fmul (fdiv (f_of_int i) (f_of_int n)) (f_of_int 2000)) (f_of_int 1000)"

definition gradient_value :: "int \<Rightarrow> int \<Rightarrow> int" where
  "gradient_value i n = f_astype_i16 (gradient_raw i n)"

text \<open>
  The radial generator. \<open>width / 2\<close> is Python's division of two integers, which gives
  the double nearest to the quotient. \<open>intensity\<close> is a double.
\<close>

definition generate_radial_mask :: "int \<Rightarrow> int \<Rightarrow> rat \<Rightarrow> matrix \<times> matrix" where
  "generate_radial_mask width height intensity =
     (let (y, x) = mgrid height width;
          cx = fl (of_int width / 2);
          cy = fl (of_int height / 2);
          dx = map_matrix (\<lambda>v. fsub (f_of_int v) cx) x;
          dy = map_matrix (\<lambda>v. fsub (f_of_int v) cy) y;
          dist = map_matrix fsqrt
                   (zip_matrix fadd (zip_matrix fmul dx dx) (zip_matrix fmul dy dy));
          max_dist = fsqrt (fadd (fmul cx cx) (fmul cy cy));
          mask_intensity = map_matrix f_astype_i16
            (map_matrix (\<lambda>v. fmul v intensity)
              (map_matrix (\<lambda>v. fsub (f_of_int 1) v)
                (map_matrix (\<lambda>v. fdiv v max_dist) dist)))
      in (mask_intensity, mask_intensity))"

text \<open>
  The values that \<open>generate_radial_mask\<close> computes for the pixel in column \<open>x\<close> and row
  \<open>y\<close>: its distance \<open>dist\<close> from the centre, the distance \<open>max_dist\<close>, which does not
  depend on the pixel, and the element of \<open>mask_intensity\<close>.
\<close>

definition radial_dist :: "int \<Rightarrow> int \<Rightarrow> int \<Rightarrow> int \<Rightarrow> rat" where
  "radial_dist width height x y =
     (let cx = fl (of_int width / 2);
          cy = fl (of_int height / 2);
          dx = fsub (f_of_int x) cx;
          dy = fsub (f_of_int y) cy
      in fsqrt (fadd (fmul dx dx) (fmul dy dy)))"

definition radial_max_dist :: "int \<Rightarrow> int \<Rightarrow> rat" where
  "radial_max_dist width height =
     (let cx = fl (of_int width / 2);
          cy = fl (of_int height / 2)
      in fsqrt (fadd (fmul cx cx) (fmul cy cy)))"

definition radial_value :: "int \<Rightarrow> int \<Rightarrow> rat \<Rightarrow> int \<Rightarrow> int \<Rightarrow> int" where
  "radial_value width height intensity x y =
     f_astype_i16
       (fmul (fsub (f_of_int 1)
                (fdiv (radial_dist width height x y) (radial_max_dist width height)))
             intensity)"

text \<open>The call with the default \<open>intensity=1000.0\<close>.\<close>

definition generate_radial_mask_default :: "int \<Rightarrow> int \<Rightarrow> matrix \<times> matrix" where
  "generate_radial_mask_default width height = generate_radial_mask width height 1000"

subsection \<open>The entry point\<close>

text \<open>
  What \<open>main\<close> does to its environment is kept in a record: the directories and the
  files that exist, and the lines printed so far. Creating a directory and writing a file
  always succeed in this model of the file system. Text is a list of bytes, in UTF-8.
\<close>

record world =
  dirs :: "string set"
  files :: "string \<rightharpoonup> byte list"
  stdout :: "string list"

definition print :: "string \<Rightarrow> world \<Rightarrow> world" where
  "print s w = w\<lparr>stdout := stdout w @ [s]\<rparr>"

text \<open>\<open>output_dir.mkdir(exist_ok=True)\<close>\<close>

definition mkdir_exist_ok :: "string \<Rightarrow> world \<Rightarrow> world" where
  "mkdir_exist_ok d w = w\<lparr>dirs := insert d (dirs w)\<rparr>"

text \<open>\<open>with open(path, 'wb') as f: f.write(data)\<close>\<close>

definition write_file :: "string \<Rightarrow> byte list \<Rightarrow> world \<Rightarrow> world" where
  "write_file path data w = w\<lparr>files := (files w)(path \<mapsto> data)\<rparr>"

text \<open>The decimal text that an f-string makes of an integer.\<close>

function str_digits :: "int \<Rightarrow> string" where
  "str_digits n = (if n < 10 then [char_of (48 + n)]
                   else str_digits (n div 10) @ [char_of (48 + n mod 10)])"
  by pat_completeness auto
termination
  by (relation "measure nat") auto

declare str_digits.simps [simp del]

definition str_int :: "int \<Rightarrow> string" where
  "str_int i = (if i < 0 then CHR ''-'' # str_digits (- i) else str_digits i)"

text \<open>The check mark U+2713 and the warning sign U+26A0 that start some of the lines.\<close>

definition check_mark :: string where
  "check_mark = [CHR 0xE2, CHR 0x9C, CHR 0x93]"

definition warning_sign :: string where
  "warning_sign = [CHR 0xE2, CHR 0x9A, CHR 0xA0]"

text \<open>
  The loop over \<open>patterns.items()\<close>, in the order of insertion. An exception of
  \<open>build_sac\<close> ends the run; what was written before stays.
\<close>

fun write_patterns ::
  "(string \<times> matrix \<times> matrix) list \<Rightarrow> int \<Rightarrow> int \<Rightarrow> string \<Rightarrow> world \<Rightarrow> (error + unit) \<times> world" where
  "write_patterns [] width height output_dir w = (Inr (), w)"
| "write_patterns ((name, a, b) # ps) width height output_dir w =
     (case build_sac (ravel a) (ravel b) width height of
        Inl e \<Rightarrow> (Inl e, w)
      | Inr sac_bytes \<Rightarrow>
          (let output_path = output_dir @ ''/'' @ ''test_mask_'' @ name @ ''.sac'';
               w1 = write_file output_path sac_bytes w;
               w2 = print (check_mark @ '' Created '' @ output_path @ '' (''
                           @ str_int (int (length sac_bytes)) @ '' bytes, ''
                           @ str_int width @ ''x'' @ str_int height @ '')'') w1
           in write_patterns ps width height output_dir w2))"

text \<open>
  The test image: an array of shape \<open>height \<times> width \<times> 3\<close> of unsigned bytes, with the
  channels \<open>(x / width * 255)\<close>, \<open>(y / height * 255)\<close> and
  \<open>((x + y) / (width + height) * 255)\<close>, each cast to \<open>np.uint8\<close>.
\<close>

definition f_astype_u8 :: "rat \<Rightarrow> int" where
  "f_astype_u8 v = uint (word_of_int (ftrunc v) :: byte)"

definition test_image :: "int \<Rightarrow> int \<Rightarrow> int list list list" where
  "test_image width height =
     (let (y, x) = mgrid height width;
          r = map_matrix f_astype_u8
                (map_matrix (\<lambda>v. fmul (fdiv (f_of_int v) (f_of_int width)) (f_of_int 255)) x);
          g = map_matrix f_astype_u8
                (map_matrix (\<lambda>v. fmul (fdiv (f_of_int v) (f_of_int height)) (f_of_int 255)) y);
          b = map_matrix f_astype_u8
                (map_matrix (\<lambda>v. fmul (fdiv (f_of_int v) (f_of_int (width + height)))
                                     (f_of_int 255))
                  (zip_matrix (+) x y))
      in zip_matrix (\<lambda>r gb. [r, fst gb, snd gb]) r (zip_matrix Pair g b))"

text \<open>
  \<open>main\<close>. The imaging library is a parameter: \<open>None\<close> when \<open>from PIL import Image\<close>
  raises \<open>ImportError\<close>, and otherwise \<open>Some save\<close>, where \<open>save img\<close> is the content of
  the PNG file that \<open>Image.fromarray(img, 'RGB').save(path)\<close> writes.
\<close>

definition main ::
  "(int list list list \<Rightarrow> byte list) option \<Rightarrow> world \<Rightarrow> (error + unit) \<times> world" where
  "main pil w0 =
     (let width = 400;
          height = 300;
          w1 = print ''Generating test SAC files...'' w0;
          output_dir = ''test_data'';
          w2 = mkdir_exist_ok output_dir w1;
          patterns = [(''radial'', generate_radial_mask_default width height),
                      (''checkerboard'', generate_checkerboard_mask_default width height),
                      (''gradient'', generate_gradient_mask width height)]
      in case write_patterns patterns width height output_dir w2 of
           (Inl e, w3) \<Rightarrow> (Inl e, w3)
         | (Inr u, w3) \<Rightarrow>
             (let w4 = print (CHR 0x0A # ''Generating test image...'') w3;
                  w5 = (case pil of
                          Some save \<Rightarrow>
                            (let img = test_image width height;
                                 img_path = output_dir @ ''/'' @ ''test_image.png'';
                                 w' = write_file img_path (save img) w4
                             in print (check_mark @ '' Created '' @ img_path @ '' (''
                                       @ str_int width @ ''x'' @ str_int height @ '')'') w')
                        | None \<Rightarrow>
                            print ''  Install with: pip install Pillow''
                              (print (warning_sign
                                      @ '' PIL not available, skipping test image generation'') w4));
                  w6 = print (CHR 0x0A # ''Test files ready in ./test_data/'') w5;
                  w7 = print ''Upload test_image.png and any test_mask_*.sac to the test page!'' w6
              in (Inr (), w7)))"

section \<open>Properties of the byte encoding\<close>

subsection \<open>Little-endian fields\<close>

lemma length_le_bytes: "length (le_bytes n v) = n"
  by (induction n arbitrary: v) auto

lemma le_bytes_1: "le_bytes 1 v = [word_of_int v]"
  by (simp add: One_nat_def)

lemma read_u_le_Nil: "read_u_le [] = 0"
  by (simp add: read_u_le_def)

lemma read_u_le_Cons: "read_u_le (b # bs) = unat b + 256 * read_u_le bs"
  by (simp add: read_u_le_def)

lemma unat_byte_of_int: "int (unat (word_of_int v :: byte)) = v mod 256"
  by (simp add: uint_word_of_int)

text \<open>Reading back \<open>n\<close> little-endian bytes of \<open>v\<close> gives \<open>v\<close> modulo \<open>256 ^ n\<close>.\<close>

lemma read_u_le_le_bytes: "int (read_u_le (le_bytes n v)) = v mod 256 ^ n"
proof (induction n arbitrary: v)
  case 0
  then show ?case by (simp add: read_u_le_Nil)
next
  case (Suc n)
  have "int (read_u_le (le_bytes (Suc n) v)) = v mod 256 + 256 * ((v div 256) mod 256 ^ n)"
    using Suc.IH [of "v div 256"] unat_byte_of_int [of v] by (simp add: read_u_le_Cons)
  also have "\<dots> = v mod 256 ^ Suc n"
    by (simp add: zmod_zmult2_eq)
  finally show ?case .
qed

lemma read_u_le_pack_I:
  assumes "fits_I v"
  shows "int (read_u_le (le_bytes 4 v)) = v"
proof -
  have "v mod 256 ^ 4 = v"
    using assms by (intro mod_pos_pos_trivial) (simp_all add: fits_I_def)
  then show ?thesis by (simp add: read_u_le_le_bytes)
qed

subsection \<open>Signed 16-bit elements\<close>

lemma sint_i16: "sint (x :: i16) = (if uint x < 32768 then uint x else uint x - 65536)"
proof -
  have b: "0 \<le> uint x" "uint x < 65536"
    using uint_lt2p [of x] by simp_all
  have s: "sint x = (uint x + 32768) mod 65536 - 32768"
    by (simp add: sint_uint signed_take_bit_eq_take_bit_shift take_bit_eq_mod)
  show ?thesis
  proof (cases "uint x < 32768")
    case True
    then have "(uint x + 32768) mod 65536 = uint x + 32768"
      using b by (intro mod_pos_pos_trivial) simp_all
    with True s show ?thesis by simp
  next
    case False
    have "uint x + 32768 = uint x - 32768 + 65536"
      by simp
    then have "(uint x + 32768) mod 65536 = (uint x - 32768 + 65536) mod 65536"
      by (rule arg_cong)
    also have "\<dots> = (uint x - 32768) mod 65536"
      by (rule mod_add_self2)
    also have "\<dots> = uint x - 32768"
      using b False by (intro mod_pos_pos_trivial) simp_all
    finally show ?thesis using False s by simp
  qed
qed

lemma read_i16_le_le_bytes: "read_i16_le (le_bytes 2 (uint (x :: i16))) = sint x"
proof -
  have b: "0 \<le> uint x" "uint x < 65536"
    using uint_lt2p [of x] by simp_all
  have "uint x mod 256 ^ 2 = uint x"
    using b by (intro mod_pos_pos_trivial) simp_all
  then have "int (read_u_le (le_bytes 2 (uint x))) = uint x"
    by (simp add: read_u_le_le_bytes)
  then show ?thesis
    by (simp add: read_i16_le_def sint_i16)
qed

lemma tobytes_Nil: "tobytes [] = []"
  by (simp add: tobytes_def)

lemma tobytes_Cons: "tobytes (x # a) = le_bytes 2 (uint x) @ tobytes a"
  by (simp add: tobytes_def)

lemma length_tobytes: "length (tobytes a) = 2 * length a"
  by (induction a) (simp_all add: tobytes_Nil tobytes_Cons length_le_bytes)

lemma read_i16s_tobytes: "read_i16s (length a) (tobytes a @ rest) = map sint a"
proof (induction a)
  case Nil
  then show ?case by simp
next
  case (Cons x a)
  have "length (le_bytes 2 (uint x)) = 2" by (rule length_le_bytes)
  then show ?case
    using Cons.IH by (simp add: tobytes_Cons read_i16_le_le_bytes)
qed

lemma tobytes_nth:
  "i < length a \<Longrightarrow> take 2 (drop (2 * i) (tobytes a @ rest)) = le_bytes 2 (uint (a ! i))"
proof (induction a arbitrary: i)
  case Nil
  then show ?case by simp
next
  case (Cons x a)
  have l: "length (le_bytes 2 (uint x)) = 2" by (rule length_le_bytes)
  show ?case
  proof (cases i)
    case 0
    then show ?thesis using l by (simp add: tobytes_Cons)
  next
    case (Suc j)
    then have "j < length a" using Cons.prems by simp
    then have "take 2 (drop (2 * j) (tobytes a @ rest)) = le_bytes 2 (uint (a ! j))"
      by (rule Cons.IH)
    then show ?thesis using l Suc by (simp add: tobytes_Cons)
  qed
qed

subsection \<open>The packed header\<close>

lemma SAC_MAGIC_bytes: "SAC_MAGIC = [83, 65, 67, 49]"
  by (simp add: SAC_MAGIC_def)

lemma pack_4s_magic: "pack_4s SAC_MAGIC = Inr [83, 65, 67, 49]"
  by (simp add: pack_4s_def SAC_MAGIC_bytes)

lemma pack_B_consts: "pack_B 0 = Inr [0]" "pack_B DTYPE_INT16 = Inr [1]" "pack_B 2 = Inr [2]"
  by (simp_all add: pack_B_def fits_B_def DTYPE_INT16_def le_bytes_1)

lemma pack_fields_Inr:
  "pack_fields (Inr bs # rs) =
     (case pack_fields rs of Inl e \<Rightarrow> Inl e | Inr cs \<Rightarrow> Inr (bs @ cs))"
  by simp

lemma pack_fields_I:
  "pack_fields (pack_I v # rs) =
     (if fits_I v
      then (case pack_fields rs of Inl e \<Rightarrow> Inl e | Inr cs \<Rightarrow> Inr (le_bytes 4 v @ cs))
      else Inl StructError)"
  by (simp add: pack_I_def)

lemma pack_fields_4I:
  "pack_fields [pack_I la, pack_I lb, pack_I w, pack_I h] =
     (if fits_I la \<and> fits_I lb \<and> fits_I w \<and> fits_I h
      then Inr (le_bytes 4 la @ le_bytes 4 lb @ le_bytes 4 w @ le_bytes 4 h)
      else Inl StructError)"
  by (simp add: pack_fields_I del: pack_fields.simps(2))

lemma struct_pack_header_sac:
  "struct_pack_header SAC_MAGIC 0 DTYPE_INT16 2 0 la lb w h =
     (if fits_I la \<and> fits_I lb \<and> fits_I w \<and> fits_I h
      then Inr ([83, 65, 67, 49, 0, 1, 2, 0] @ le_bytes 4 la @ le_bytes 4 lb
                  @ le_bytes 4 w @ le_bytes 4 h)
      else Inl StructError)"
  unfolding struct_pack_header_def pack_4s_magic pack_B_consts
  by (simp only: pack_fields_Inr pack_fields_4I) simp

subsection \<open>The three outcomes of \<open>build_sac\<close>\<close>

lemma length_to_c_contiguous_i16: "length (to_c_contiguous_i16 A) = length A"
  by (simp add: to_c_contiguous_i16_def)

lemma build_sac_assert_A:
  assumes "w \<noteq> 0" "h \<noteq> 0" "int (length A) \<noteq> w * h"
  shows "build_sac A B w h = Inl (AssertionError ''A length != width*height'')"
  unfolding build_sac_def Let_def length_to_c_contiguous_i16
  using assms by (simp only: simp_thms if_True)

lemma build_sac_assert_B:
  assumes "w \<noteq> 0" "h \<noteq> 0" "int (length A) = w * h" "int (length B) \<noteq> w * h"
  shows "build_sac A B w h = Inl (AssertionError ''B length != width*height'')"
  unfolding build_sac_def Let_def length_to_c_contiguous_i16
  using assms by (simp only: simp_thms if_True if_False)

lemma build_sac_packed:
  assumes "w = 0 \<or> h = 0 \<or> (int (length A) = w * h \<and> int (length B) = w * h)"
  shows "build_sac A B w h =
     (if fits_I (int (length A)) \<and> fits_I (int (length B)) \<and> fits_I w \<and> fits_I h
        then Inr ([83, 65, 67, 49, 0, 1, 2, 0] @ le_bytes 4 (int (length A))
                  @ le_bytes 4 (int (length B)) @ le_bytes 4 w @ le_bytes 4 h
                  @ tobytes (to_c_contiguous_i16 A) @ tobytes (to_c_contiguous_i16 B))
      else Inl StructError)"
proof -
  have c: "\<not> ((w \<noteq> 0 \<and> h \<noteq> 0) \<and> int (length A) \<noteq> w * h)"
          "\<not> ((w \<noteq> 0 \<and> h \<noteq> 0) \<and> int (length B) \<noteq> w * h)"
    using assms by blast+
  let ?ok = "fits_I (int (length A)) \<and> fits_I (int (length B)) \<and> fits_I w \<and> fits_I h"
  have b: "build_sac A B w h =
      (case struct_pack_header SAC_MAGIC 0 DTYPE_INT16 2 0 (int (length A)) (int (length B)) w h of
         Inl e \<Rightarrow> Inl e
       | Inr header \<Rightarrow> Inr (header @ tobytes (to_c_contiguous_i16 A) @ tobytes (to_c_contiguous_i16 B)))"
    unfolding build_sac_def Let_def length_to_c_contiguous_i16
    by (simp only: c if_False)
  show ?thesis
  proof (cases ?ok)
    case True
    then have "struct_pack_header SAC_MAGIC 0 DTYPE_INT16 2 0 (int (length A)) (int (length B)) w h =
       Inr ([83, 65, 67, 49, 0, 1, 2, 0] @ le_bytes 4 (int (length A))
                  @ le_bytes 4 (int (length B)) @ le_bytes 4 w @ le_bytes 4 h)"
      by (simp only: struct_pack_header_sac if_True simp_thms)
    with True show ?thesis
      by (simp only: b sum.case if_True append_assoc simp_thms)
  next
    case False
    then have "struct_pack_header SAC_MAGIC 0 DTYPE_INT16 2 0 (int (length A)) (int (length B)) w h =
       Inl StructError"
      by (simp only: struct_pack_header_sac if_False simp_thms)
    with False show ?thesis
      by (simp only: b sum.case if_False simp_thms)
  qed
qed

lemma build_sac_InrD:
  assumes "build_sac A B w h = Inr bs"
  shows "w = 0 \<or> h = 0 \<or> (int (length A) = w * h \<and> int (length B) = w * h)"
    and "fits_I (int (length A))" and "fits_I (int (length B))" and "fits_I w" and "fits_I h"
    and "bs = [83, 65, 67, 49, 0, 1, 2, 0] @ le_bytes 4 (int (length A))
                  @ le_bytes 4 (int (length B)) @ le_bytes 4 w @ le_bytes 4 h
                  @ tobytes (to_c_contiguous_i16 A) @ tobytes (to_c_contiguous_i16 B)"
proof -
  show c: "w = 0 \<or> h = 0 \<or> (int (length A) = w * h \<and> int (length B) = w * h)"
  proof (rule ccontr)
    assume n: "\<not> ?thesis"
    then have wh: "w \<noteq> 0" "h \<noteq> 0" by simp_all
    show False
    proof (cases "int (length A) = w * h")
      case True
      with n have "int (length B) \<noteq> w * h" by simp
      from build_sac_assert_B [OF wh True this] assms show False by simp
    next
      case False
      from build_sac_assert_A [OF wh False] assms show False by simp
    qed
  qed
  let ?ok = "fits_I (int (length A)) \<and> fits_I (int (length B)) \<and> fits_I w \<and> fits_I h"
  have ok: ?ok
  proof (rule ccontr)
    assume "\<not> ?ok"
    then have "build_sac A B w h = Inl StructError"
      by (simp only: build_sac_packed [OF c] if_False)
    with assms show False by simp
  qed
  then show "fits_I (int (length A))" "fits_I (int (length B))" "fits_I w" "fits_I h"
    by simp_all
  from ok have "build_sac A B w h = Inr ([83, 65, 67, 49, 0, 1, 2, 0] @ le_bytes 4 (int (length A))
                  @ le_bytes 4 (int (length B)) @ le_bytes 4 w @ le_bytes 4 h
                  @ tobytes (to_c_contiguous_i16 A) @ tobytes (to_c_contiguous_i16 B))"
    by (simp only: build_sac_packed [OF c] if_True simp_thms)
  with assms show "bs = [83, 65, 67, 49, 0, 1, 2, 0] @ le_bytes 4 (int (length A))
                  @ le_bytes 4 (int (length B)) @ le_bytes 4 w @ le_bytes 4 h
                  @ tobytes (to_c_contiguous_i16 A) @ tobytes (to_c_contiguous_i16 B)"
    by simp
qed

lemma length_sac_layout:
  "length ([83, 65, 67, 49, 0, 1, 2, 0] @ le_bytes 4 la @ le_bytes 4 lb @ le_bytes 4 w @ le_bytes 4 h
       @ tobytes a @ tobytes b) = 24 + 2 * length a + 2 * length b"
  by (simp add: length_le_bytes length_tobytes del: le_bytes.simps)

lemma sint_i16_of_int:
  assumes "- 32768 \<le> v" "v \<le> 32767"
  shows "sint (word_of_int v :: i16) = v"
proof -
  have "signed_take_bit 15 v = v"
    using assms by (intro signed_take_bit_int_eq_self) simp_all
  then show ?thesis by (simp add: sint_sbintrunc')
qed

lemma map_sint_to_c_contiguous_i16:
  assumes "\<forall>v\<in>set A. - 32768 \<le> v \<and> v \<le> 32767"
  shows "map sint (to_c_contiguous_i16 A) = A"
  using assms by (induction A) (simp_all add: to_c_contiguous_i16_def sint_i16_of_int)

lemma sac_header_fields:
  assumes "bs = [83, 65, 67, 49, 0, 1, 2, 0] @ le_bytes 4 la @ le_bytes 4 lb @ le_bytes 4 w
      @ le_bytes 4 h @ body"
  shows "take 4 bs = [83, 65, 67, 49]" and "bs ! 4 = 0" and "bs ! 5 = 1" and "bs ! 6 = 2" and "bs ! 7 = 0"
    and "take 4 (drop 8 bs) = le_bytes 4 la"
    and "take 4 (drop 12 bs) = le_bytes 4 lb"
    and "take 4 (drop 16 bs) = le_bytes 4 w"
    and "take 4 (drop 20 bs) = le_bytes 4 h"
    and "drop 24 bs = body"
  unfolding assms by (simp_all add: length_le_bytes del: le_bytes.simps)

lemma build_sac_Inr_iff:
  "(\<exists>bs. build_sac A B w h = Inr bs) \<longleftrightarrow>
     (w = 0 \<or> h = 0 \<or> (int (length A) = w * h \<and> int (length B) = w * h))
     \<and> fits_I (int (length A)) \<and> fits_I (int (length B)) \<and> fits_I w \<and> fits_I h"
  (is "?l \<longleftrightarrow> ?c \<and> ?ok")
proof
  assume ?l
  then obtain bs where "build_sac A B w h = Inr bs" ..
  from build_sac_InrD(1-5) [OF this] show "?c \<and> ?ok" by blast
next
  assume a: "?c \<and> ?ok"
  then have ?c and ?ok by blast+
  from \<open>?ok\<close> show ?l
    by (simp only: build_sac_packed [OF \<open>?c\<close>] if_True simp_thms) blast
qed

lemma build_sac_AssertionError_iff:
  "(\<exists>m. build_sac A B w h = Inl (AssertionError m)) \<longleftrightarrow>
     w \<noteq> 0 \<and> h \<noteq> 0 \<and> (int (length A) \<noteq> w * h \<or> int (length B) \<noteq> w * h)"
  (is "?l \<longleftrightarrow> ?r")
proof (cases "w = 0 \<or> h = 0 \<or> (int (length A) = w * h \<and> int (length B) = w * h)")
  case True
  have "build_sac A B w h \<noteq> Inl (AssertionError m)" for m
    by (simp only: build_sac_packed [OF True] split: if_split) simp
  with True show ?thesis by blast
next
  case False
  then have wh: "w \<noteq> 0" "h \<noteq> 0" by simp_all
  have ?l
  proof (cases "int (length A) = w * h")
    case True
    with False have "int (length B) \<noteq> w * h" by simp
    from build_sac_assert_B [OF wh True this] show ?thesis by blast
  next
    case False
    from build_sac_assert_A [OF wh False] show ?thesis by blast
  qed
  with False show ?thesis by blast
qed

lemma build_sac_StructError_iff:
  "build_sac A B w h = Inl StructError \<longleftrightarrow>
     (w = 0 \<or> h = 0 \<or> (int (length A) = w * h \<and> int (length B) = w * h))
     \<and> \<not> (fits_I (int (length A)) \<and> fits_I (int (length B)) \<and> fits_I w \<and> fits_I h)"
  (is "?l \<longleftrightarrow> ?c \<and> \<not> ?ok")
proof (cases ?c)
  case True
  show ?thesis
    by (simp only: build_sac_packed [OF True] True split: if_split) simp
next
  case False
  then have "\<exists>m. build_sac A B w h = Inl (AssertionError m)"
    by (simp only: build_sac_AssertionError_iff) blast
  with False show ?thesis by auto
qed

subsection \<open>Index arrays and element-wise operations\<close>

lemma mgrid_shape:
  "length (fst (mgrid h w)) = nat h" "length (snd (mgrid h w)) = nat h"
  "y < nat h \<Longrightarrow> length (fst (mgrid h w) ! y) = nat w"
  "y < nat h \<Longrightarrow> length (snd (mgrid h w) ! y) = nat w"
  by (simp_all add: mgrid_def)

lemma mgrid_nth:
  assumes "y < nat h" "x < nat w"
  shows "fst (mgrid h w) ! y ! x = int y" and "snd (mgrid h w) ! y ! x = int x"
  using assms by (simp_all add: mgrid_def)

lemma length_map_matrix: "length (map_matrix f m) = length m"
  by (simp add: map_matrix_def)

lemma length_map_matrix_nth: "y < length m \<Longrightarrow> length (map_matrix f m ! y) = length (m ! y)"
  by (simp add: map_matrix_def)

lemma map_matrix_nth:
  "y < length m \<Longrightarrow> x < length (m ! y) \<Longrightarrow> map_matrix f m ! y ! x = f (m ! y ! x)"
  by (simp add: map_matrix_def)

lemma length_zip_matrix: "length (zip_matrix f a b) = min (length a) (length b)"
  by (simp add: zip_matrix_def)

lemma length_zip_matrix_nth:
  "y < length a \<Longrightarrow> y < length b \<Longrightarrow>
     length (zip_matrix f a b ! y) = min (length (a ! y)) (length (b ! y))"
  by (simp add: zip_matrix_def)

lemma zip_matrix_nth:
  "y < length a \<Longrightarrow> y < length b \<Longrightarrow> x < length (a ! y) \<Longrightarrow> x < length (b ! y) \<Longrightarrow>
     zip_matrix f a b ! y ! x = f (a ! y ! x) (b ! y ! x)"
  by (simp add: zip_matrix_def)

lemma astype_i16_id: "- 32768 \<le> v \<Longrightarrow> v \<le> 32767 \<Longrightarrow> astype_i16 v = v"
  by (simp add: astype_i16_def sint_i16_of_int)

subsection \<open>The checkerboard\<close>

lemma checkerboard_shape:
  "length (fst (generate_checkerboard_mask w h s)) = nat h"
  "y < nat h \<Longrightarrow> length (fst (generate_checkerboard_mask w h s) ! y) = nat w"
  by (simp_all add: generate_checkerboard_mask_def Let_def split_beta length_map_matrix
      length_zip_matrix length_map_matrix_nth length_zip_matrix_nth mgrid_shape)

lemma checkerboard_same: "snd (generate_checkerboard_mask w h s) = fst (generate_checkerboard_mask w h s)"
  by (simp add: generate_checkerboard_mask_def Let_def split_beta)

lemma checker_value_range: "(v mod 2 * 1000 = (0::int)) \<or> (v mod 2 * 1000 = 1000)"
proof -
  have "v mod 2 = 0 \<or> v mod 2 = 1" by presburger
  then show ?thesis by auto
qed

lemma checkerboard_nth:
  assumes "y < nat h" "x < nat w"
  shows "fst (generate_checkerboard_mask w h s) ! y ! x = (int x div s + int y div s) mod 2 * 1000"
proof -
  let ?y = "fst (mgrid h w)" and ?x = "snd (mgrid h w)"
  let ?dx = "map_matrix (\<lambda>v. v div s) ?x" and ?dy = "map_matrix (\<lambda>v. v div s) ?y"
  let ?sum = "zip_matrix (+) ?dx ?dy"
  let ?m = "map_matrix (\<lambda>v. v mod 2 * 1000) ?sum"
  have dx: "length ?dx = nat h" "length (?dx ! y) = nat w" "?dx ! y ! x = int x div s"
    using assms by (simp_all add: length_map_matrix length_map_matrix_nth map_matrix_nth
        mgrid_shape mgrid_nth)
  have dy: "length ?dy = nat h" "length (?dy ! y) = nat w" "?dy ! y ! x = int y div s"
    using assms by (simp_all add: length_map_matrix length_map_matrix_nth map_matrix_nth
        mgrid_shape mgrid_nth)
  have sum: "length ?sum = nat h" "length (?sum ! y) = nat w"
    "?sum ! y ! x = int x div s + int y div s"
    using assms dx dy by (simp_all add: length_zip_matrix length_zip_matrix_nth zip_matrix_nth)
  have m: "length ?m = nat h" "length (?m ! y) = nat w"
    "?m ! y ! x = (int x div s + int y div s) mod 2 * 1000"
    using assms sum by (simp_all add: length_map_matrix length_map_matrix_nth map_matrix_nth)
  have "fst (generate_checkerboard_mask w h s) = map_matrix astype_i16 ?m"
    by (simp add: generate_checkerboard_mask_def Let_def split_beta)
  then have "fst (generate_checkerboard_mask w h s) ! y ! x
      = astype_i16 ((int x div s + int y div s) mod 2 * 1000)"
    using assms m by (simp add: map_matrix_nth)
  also have "\<dots> = (int x div s + int y div s) mod 2 * 1000"
    using checker_value_range [of "int x div s + int y div s"]
    by (intro astype_i16_id) auto
  finally show ?thesis .
qed

section \<open>Properties of the double precision arithmetic\<close>

lemma rne_of_int: "rne (of_int n) = n"
  by (simp add: rne_def)

lemma rne_cases:
  "rne q = \<lfloor>q\<rfloor> \<or> rne q = \<lfloor>q\<rfloor> + 1"
  by (simp add: rne_def Let_def)

lemma rne_ge_floor: "\<lfloor>q\<rfloor> \<le> rne q"
  using rne_cases [of q] by auto

lemma rne_le_floor_Suc: "rne q \<le> \<lfloor>q\<rfloor> + 1"
  using rne_cases [of q] by auto

lemma rne_mono:
  assumes "q \<le> q'"
  shows "rne q \<le> rne q'"
proof (cases "\<lfloor>q\<rfloor> < \<lfloor>q'\<rfloor>")
  case True
  have "rne q \<le> \<lfloor>q\<rfloor> + 1" by (rule rne_le_floor_Suc)
  also have "\<dots> \<le> \<lfloor>q'\<rfloor>" using True by simp
  also have "\<dots> \<le> rne q'" by (rule rne_ge_floor)
  finally show ?thesis .
next
  case False
  moreover have "\<lfloor>q\<rfloor> \<le> \<lfloor>q'\<rfloor>" using assms by (rule floor_mono)
  ultimately have eq: "\<lfloor>q'\<rfloor> = \<lfloor>q\<rfloor>" by simp
  have "q - of_int \<lfloor>q\<rfloor> \<le> q' - of_int \<lfloor>q\<rfloor>" using assms by simp
  then show ?thesis
    by (auto simp: rne_def Let_def eq)
qed

lemma rne_minus: "rne (- q) = - rne q"
proof (cases "q = of_int \<lfloor>q\<rfloor>")
  case True
  then obtain n where "q = of_int n" ..
  then have "- q = of_int (- n)" by simp
  then show ?thesis
    using \<open>q = of_int n\<close> by (simp only: rne_of_int)
next
  case False
  then have f: "\<lfloor>- q\<rfloor> = - \<lfloor>q\<rfloor> - 1"
    by (simp add: floor_minus ceiling_altdef)
  have r: "- q - of_int (- \<lfloor>q\<rfloor> - 1) = 1 - (q - of_int \<lfloor>q\<rfloor>)"
    by simp
  show ?thesis
    unfolding rne_def Let_def f r by auto
qed


lemma binade_bounds:
  assumes "q \<noteq> 0"
  shows "2 powi (binade q) \<le> \<bar>q\<bar>" and "\<bar>q\<bar> < 2 powi (binade q + 1)"
proof -
  have "2 powi (binade q) \<le> \<bar>q\<bar> \<and> \<bar>q\<bar> < 2 powi (binade q + 1)"
  proof (cases "1 \<le> \<bar>q\<bar>")
    case True
    let ?n = "\<lfloor>\<bar>q\<bar>\<rfloor>"
    let ?b = "bitlen ?n"
    have n: "0 < ?n" using True by simp
    have b: "1 \<le> ?b" using n by (simp add: bitlen_alt_def)
    note bb = bitlen_bounds [OF n]
    have be: "binade q = ?b - 1" using True by (simp add: binade_def)
    have "(2::rat) powi (?b - 1) = of_int (2 ^ nat (?b - 1))"
      using b by (simp add: power_int_def)
    also have "\<dots> \<le> of_int ?n" using bb by (simp only: of_int_le_iff)
    also have "\<dots> \<le> \<bar>q\<bar>" by simp
    finally have lo: "2 powi (binade q) \<le> \<bar>q\<bar>" by (simp only: be)
    have "?n + 1 \<le> 2 ^ nat ?b" using bb by simp
    then have "(of_int (?n + 1) :: rat) \<le> of_int (2 ^ nat ?b)"
      by (simp only: of_int_le_iff)
    moreover have "\<bar>q\<bar> < of_int (?n + 1)"
      using floor_correct [of "\<bar>q\<bar>"] by blast
    ultimately have "\<bar>q\<bar> < of_int (2 ^ nat ?b)" by (rule less_le_trans [rotated])
    also have "\<dots> = 2 powi ?b"
      using b by (simp add: power_int_def)
    finally have "\<bar>q\<bar> < 2 powi (binade q + 1)" by (simp add: be)
    with lo show ?thesis by simp
  next
    case False
    let ?p = "\<bar>q\<bar>"
    let ?m = "\<lceil>1 / ?p\<rceil> - 1"
    let ?b = "bitlen ?m"
    from False assms have p: "0 < ?p" "?p < 1" by simp_all
    then have "1 < 1 / ?p" by (simp add: field_simps)
    then have "1 < \<lceil>1 / ?p\<rceil>" by (simp add: less_ceiling_iff)
    then have m: "0 < ?m" by simp
    have b: "1 \<le> ?b" using m by (simp add: bitlen_alt_def)
    note bb = bitlen_bounds [OF m]
    have be: "binade q = - ?b" using False by (simp add: binade_def)
    have m_lt: "of_int ?m < 1 / ?p"
      using ceiling_correct [of "1 / ?p"] by simp
    have m_ge: "1 / ?p \<le> of_int (?m + 1)"
      using ceiling_correct [of "1 / ?p"] by simp
    have "(of_int (?m + 1) :: rat) \<le> of_int (2 ^ nat ?b)"
      using bb by (simp only: of_int_le_iff) simp
    with m_ge have "1 / ?p \<le> of_int (2 ^ nat ?b)" by (rule order_trans)
    also have "\<dots> = 2 powi ?b" using b by (simp add: power_int_def)
    finally have "1 / ?p \<le> 2 powi ?b" .
    then have "1 \<le> 2 powi ?b * ?p" using p by (simp add: field_simps)
    then have "1 / 2 powi ?b \<le> ?p" by (simp add: field_simps)
    then have lo: "2 powi (binade q) \<le> ?p" by (simp add: be power_int_minus_divide)
    have "(2::rat) powi (?b - 1) = of_int (2 ^ nat (?b - 1))"
      using b by (simp add: power_int_def)
    also have "\<dots> \<le> of_int ?m" using bb by (simp only: of_int_le_iff)
    also have "\<dots> < 1 / ?p" by (rule m_lt)
    finally have "2 powi (?b - 1) * ?p < 1" using p by (simp add: field_simps)
    then have "?p < 1 / 2 powi (?b - 1)" by (simp add: field_simps)
    also have "\<dots> = 2 powi (binade q + 1)"
      by (simp add: be power_int_minus_divide [symmetric])
    finally show ?thesis using lo by simp
  qed
  then show "2 powi (binade q) \<le> \<bar>q\<bar>" and "\<bar>q\<bar> < 2 powi (binade q + 1)"
    by simp_all
qed

lemma binade_unique:
  assumes "2 powi k \<le> \<bar>q\<bar>" and "\<bar>q\<bar> < 2 powi (k + 1)"
  shows "binade q = k"
proof -
  have "0 < (2::rat) powi k" by (rule zero_less_power_int) simp
  with assms(1) have "0 < \<bar>q\<bar>" by (rule less_le_trans [rotated])
  then have "q \<noteq> 0" by simp
  note b = binade_bounds [OF this]
  have "(2::rat) powi (binade q) < 2 powi (k + 1)"
    using b(1) assms(2) by (rule le_less_trans)
  then have 1: "binade q < k + 1"
    by (metis power_int_increasing not_le one_le_numeral)
  have "(2::rat) powi k < 2 powi (binade q + 1)"
    using assms(1) b(2) by (rule le_less_trans)
  then have 2: "k < binade q + 1"
    by (metis power_int_increasing not_le one_le_numeral)
  from 1 2 show ?thesis by simp
qed


lemma binade_minus: "binade (- q) = binade q"
  by (simp add: binade_def)

lemma fl_zero: "fl 0 = 0"
  by (simp add: fl_def)

lemma fl_minus: "fl (- q) = - fl q"
  by (simp add: fl_def binade_minus rne_minus Let_def)

lemma pow2_split:
  "(2::rat) powi b = 2 ^ 52 * 2 powi (b - 52)" "(2::rat) powi (b + 1) = 2 ^ 53 * 2 powi (b - 52)"
proof -
  have "(2::rat) powi (52 + (b - 52)) = 2 powi 52 * 2 powi (b - 52)"
    by (rule power_int_add) simp
  moreover have "52 + (b - 52) = b" by simp
  moreover have "(2::rat) powi 52 = 2 ^ 52" by (rule power_int_numeral)
  ultimately show "(2::rat) powi b = 2 ^ 52 * 2 powi (b - 52)" by (simp only:)
  have "(2::rat) powi (53 + (b - 52)) = 2 powi 53 * 2 powi (b - 52)"
    by (rule power_int_add) simp
  moreover have "53 + (b - 52) = b + 1" by simp
  moreover have "(2::rat) powi 53 = 2 ^ 53" by (rule power_int_numeral)
  ultimately show "(2::rat) powi (b + 1) = 2 ^ 53 * 2 powi (b - 52)" by (simp only:)
qed

lemma scaled_bounds:
  assumes "0 < q"
  shows "2 ^ 52 \<le> q / 2 powi (binade q - 52)" and "q / 2 powi (binade q - 52) < 2 ^ 53"
proof -
  from assms have q: "q \<noteq> 0" "\<bar>q\<bar> = q" by simp_all
  note b = binade_bounds [OF q(1), unfolded q(2)]
  have s: "0 < (2::rat) powi (binade q - 52)" by (rule zero_less_power_int) simp
  have "(2::rat) ^ 52 * 2 powi (binade q - 52) \<le> q"
    using b(1) by (simp only: pow2_split(1) [symmetric])
  then show "2 ^ 52 \<le> q / 2 powi (binade q - 52)"
    using s by (simp add: pos_le_divide_eq)
  have "q < (2::rat) ^ 53 * 2 powi (binade q - 52)"
    using b(2) by (simp only: pow2_split(2) [symmetric])
  then show "q / 2 powi (binade q - 52) < 2 ^ 53"
    using s by (simp add: pos_divide_less_eq)
qed

lemma fl_pos_eq:
  assumes "0 < q"
  shows "fl q = of_int (rne (q / 2 powi (binade q - 52))) * 2 powi (binade q - 52)"
  using assms by (simp add: fl_def Let_def)

lemma fl_pos_bounds:
  assumes "0 < q"
  shows "2 powi (binade q) \<le> fl q" and "fl q \<le> 2 powi (binade q + 1)"
proof -
  let ?s = "(2::rat) powi (binade q - 52)"
  let ?m = "rne (q / ?s)"
  have s: "0 < ?s" by (rule zero_less_power_int) simp
  note sb = scaled_bounds [OF assms]
  have "rne (of_int (2 ^ 52)) \<le> ?m"
    using sb(1) by (intro rne_mono) simp
  then have lo: "2 ^ 52 \<le> ?m" by (simp only: rne_of_int)
  have "?m \<le> rne (of_int (2 ^ 53))"
    using sb(2) by (intro rne_mono) simp
  then have hi: "?m \<le> 2 ^ 53" by (simp only: rne_of_int)
  have "(2::rat) powi (binade q) = 2 ^ 52 * ?s"
    by (rule pow2_split)
  also have "\<dots> = of_int (2 ^ 52) * ?s" by simp
  also have "\<dots> \<le> of_int ?m * ?s"
    using lo s by (intro mult_right_mono) (simp_all only: of_int_le_iff less_imp_le)
  finally show "2 powi (binade q) \<le> fl q"
    by (simp only: fl_pos_eq [OF assms])
  have "of_int ?m * ?s \<le> of_int (2 ^ 53) * ?s"
    using hi s by (intro mult_right_mono) (simp_all only: of_int_le_iff less_imp_le)
  also have "\<dots> = 2 ^ 53 * ?s" by simp
  also have "\<dots> = 2 powi (binade q + 1)"
    by (rule pow2_split(2) [symmetric])
  finally show "fl q \<le> 2 powi (binade q + 1)"
    by (simp only: fl_pos_eq [OF assms])
qed

lemma fl_pos: "0 < q \<Longrightarrow> 0 < fl q"
proof -
  assume q: "0 < q"
  have "0 < (2::rat) powi (binade q)" by (rule zero_less_power_int) simp
  also have "\<dots> \<le> fl q" using q by (rule fl_pos_bounds)
  finally show ?thesis .
qed

lemma binade_mono_pos:
  assumes "0 < q" "q \<le> q'"
  shows "binade q \<le> binade q'"
proof -
  from assms have q: "q \<noteq> 0" "\<bar>q\<bar> = q" and q': "q' \<noteq> 0" "\<bar>q'\<bar> = q'" by simp_all
  note b = binade_bounds [OF q(1), unfolded q(2)]
  note b' = binade_bounds [OF q'(1), unfolded q'(2)]
  have "(2::rat) powi (binade q) < 2 powi (binade q' + 1)"
    using b(1) assms(2) b'(2) by linarith
  then have "binade q < binade q' + 1"
    by (metis power_int_increasing not_le one_le_numeral)
  then show ?thesis by simp
qed

lemma fl_mono_pos:
  assumes "0 < q" "q \<le> q'"
  shows "fl q \<le> fl q'"
proof -
  from assms have q': "0 < q'" by simp
  have le: "binade q \<le> binade q'" using assms by (rule binade_mono_pos)
  show ?thesis
  proof (cases "binade q = binade q'")
    case True
    let ?s = "(2::rat) powi (binade q - 52)"
    have s: "0 < ?s" by (rule zero_less_power_int) simp
    have "q / ?s \<le> q' / ?s" using assms(2) s by (simp add: divide_right_mono)
    then have "rne (q / ?s) \<le> rne (q' / ?s)" by (rule rne_mono)
    then have "of_int (rne (q / ?s)) * ?s \<le> of_int (rne (q' / ?s)) * ?s"
      using s by (intro mult_right_mono) (simp_all only: of_int_le_iff less_imp_le)
    then show ?thesis
      by (simp only: fl_pos_eq [OF assms(1)] fl_pos_eq [OF q'] True [symmetric])
  next
    case False
    with le have "binade q + 1 \<le> binade q'" by simp
    then have "(2::rat) powi (binade q + 1) \<le> 2 powi (binade q')"
      by (intro power_int_increasing) simp_all
    with fl_pos_bounds(2) [OF assms(1)] fl_pos_bounds(1) [OF q'] show ?thesis
      by linarith
  qed
qed

lemma fl_nonneg: "0 \<le> q \<Longrightarrow> 0 \<le> fl q"
  using fl_pos [of q] by (cases "q = 0") (simp_all add: fl_zero less_imp_le)

lemma fl_mono:
  assumes "q \<le> q'"
  shows "fl q \<le> fl q'"
proof -
  consider "0 < q" | "q \<le> 0" "0 \<le> q'" | "q' < 0" by linarith
  then show ?thesis
  proof cases
    case 1
    then show ?thesis using assms by (rule fl_mono_pos)
  next
    case 2
    then have "0 \<le> fl (- q)" "0 \<le> fl q'" by (simp_all add: fl_nonneg)
    then show ?thesis by (simp add: fl_minus)
  next
    case 3
    then have "0 < - q'" "- q' \<le> - q" using assms by simp_all
    then have "fl (- q') \<le> fl (- q)" by (rule fl_mono_pos)
    then show ?thesis by (simp add: fl_minus)
  qed
qed


lemma pow2_Suc: "(2::rat) powi (k + 1) = 2 * 2 powi k"
  by (simp add: power_int_add)

lemma fl_representable_pos:
  assumes "0 < m" "m < 2 ^ 53"
  shows "fl (of_int m * 2 powi e) = of_int m * 2 powi e"
proof -
  define q :: rat where "q = of_int m * 2 powi e"
  define b where "b = binade q"
  have pe: "0 < (2::rat) powi e" by (rule zero_less_power_int) simp
  have q: "0 < q" using assms(1) pe by (simp add: q_def)
  have "q \<noteq> 0" using q by (metis less_irrefl)
  moreover have "\<bar>q\<bar> = q" using q by (rule abs_of_pos)
  ultimately have q': "q \<noteq> 0" "\<bar>q\<bar> = q" by blast+
  note bb = binade_bounds [OF q'(1), unfolded q'(2), folded b_def]
  have "(of_int m :: rat) < of_int (2 ^ 53)" using assms(2) by (simp only: of_int_less_iff)
  then have "q < 2 ^ 53 * 2 powi e" using pe by (simp add: q_def)
  also have "\<dots> = 2 powi (53 + e)"
    by (simp add: power_int_add)
  finally have "(2::rat) powi b < 2 powi (53 + e)" using bb(1) by linarith
  then have "b < 53 + e"
    by (metis power_int_increasing not_le one_le_numeral)
  then have d: "0 \<le> e - (b - 52)" by simp
  define d where "d = nat (e - (b - 52))"
  have e: "e = int d + (b - 52)" using d by (simp add: d_def)
  have "(2::rat) powi (int d + (b - 52)) = 2 powi (int d) * 2 powi (b - 52)"
    by (rule power_int_add) simp
  then have split: "(2::rat) powi e = 2 ^ d * 2 powi (b - 52)"
    using e by simp
  have s: "(2::rat) powi (b - 52) \<noteq> 0" by simp
  have qs: "q = of_int (m * 2 ^ d) * 2 powi (b - 52)"
    by (simp add: q_def split)
  then have "q / 2 powi (b - 52) = of_int (m * 2 ^ d)"
    using s by (simp del: of_int_mult of_int_power)
  then have "rne (q / 2 powi (b - 52)) = m * 2 ^ d"
    by (simp only: rne_of_int)
  then have "fl q = of_int (m * 2 ^ d) * 2 powi (b - 52)"
    by (simp only: fl_pos_eq [OF q] b_def)
  also have "\<dots> = q" by (rule qs [symmetric])
  finally show ?thesis by (simp only: q_def)
qed

lemma fl_representable:
  assumes "\<bar>m\<bar> < 2 ^ 53"
  shows "fl (of_int m * 2 powi e) = of_int m * 2 powi e"
proof -
  consider "0 < m" | "m = 0" | "m < 0" by linarith
  then show ?thesis
  proof cases
    case 1
    with assms show ?thesis by (intro fl_representable_pos) simp_all
  next
    case 2
    then show ?thesis by (simp add: fl_zero)
  next
    case 3
    with assms have "fl (of_int (- m) * 2 powi e) = of_int (- m) * 2 powi e"
      by (intro fl_representable_pos) simp_all
    then have "fl (- (of_int m * 2 powi e)) = - (of_int m * 2 powi e)" by simp
    then show ?thesis by (simp only: fl_minus neg_equal_iff_equal)
  qed
qed

lemma fl_of_int:
  assumes "\<bar>n\<bar> < 2 ^ 53"
  shows "fl (of_int n) = of_int n"
  using fl_representable [OF assms, of 0] by simp

lemma fl_half: "fl (1 / 2) = 1 / 2"
  using fl_representable [of 1 "- 1"] by (simp add: power_int_minus_divide)

lemma fl_scale2: "fl (2 * q) = 2 * fl q"
proof -
  have pos: "fl (2 * q) = 2 * fl q" if q: "0 < q" for q
  proof -
    from q have q': "q \<noteq> 0" "\<bar>q\<bar> = q" by simp_all
    note b = binade_bounds [OF q'(1), unfolded q'(2)]
    have p1: "(2::rat) powi (binade q + 1) = 2 * 2 powi (binade q)"
      by (simp add: power_int_add)
    have p2: "(2::rat) powi (binade q + 1 + 1) = 2 * 2 powi (binade q + 1)"
      by (simp add: power_int_add)
    have a: "\<bar>2 * q\<bar> = 2 * q" using q by simp
    have lo: "2 powi (binade q + 1) \<le> \<bar>2 * q\<bar>"
      unfolding a p1 using b(1) by simp
    have hi: "\<bar>2 * q\<bar> < 2 powi (binade q + 1 + 1)"
      unfolding a p2 using b(2) by simp
    have "binade (2 * q) = binade q + 1"
      using lo hi by (rule binade_unique)
    then have e: "binade (2 * q) - 52 = (binade q - 52) + 1" by simp
    have ee: "(2::rat) powi (binade (2 * q) - 52) = 2 * 2 powi (binade q - 52)"
      unfolding e by (rule pow2_Suc)
    have "0 < 2 * q" using q by simp
    then have "fl (2 * q)
        = of_int (rne (2 * q / 2 powi (binade (2 * q) - 52))) * 2 powi (binade (2 * q) - 52)"
      by (rule fl_pos_eq)
    also have "\<dots> = of_int (rne (2 * q / (2 * 2 powi (binade q - 52))))
        * (2 * 2 powi (binade q - 52))"
      by (simp only: ee)
    also have "2 * q / (2 * 2 powi (binade q - 52)) = q / 2 powi (binade q - 52)"
      by simp
    also have "of_int (rne (q / 2 powi (binade q - 52))) * (2 * 2 powi (binade q - 52)) = 2 * fl q"
      using q by (simp add: fl_pos_eq)
    finally show ?thesis .
  qed
  consider "0 < q" | "q = 0" | "q < 0" by linarith
  then show ?thesis
  proof cases
    case 1
    then show ?thesis by (rule pos)
  next
    case 2
    then show ?thesis by (simp add: fl_zero)
  next
    case 3
    then have "fl (2 * (- q)) = 2 * fl (- q)" by (intro pos) simp
    then have "fl (- (2 * q)) = 2 * fl (- q)" by simp
    then show ?thesis by (simp only: fl_minus)
  qed
qed

lemma ftrunc_of_int: "ftrunc (of_int n) = n"
  by (simp add: ftrunc_def)

lemma ftrunc_mono:
  assumes "q \<le> q'"
  shows "ftrunc q \<le> ftrunc q'"
proof -
  consider "0 \<le> q" | "q < 0" "q' < 0" | "q < 0" "0 \<le> q'" by linarith
  then show ?thesis
  proof cases
    case 1
    with assms have "0 \<le> q'" by simp
    with 1 assms show ?thesis by (simp add: ftrunc_def floor_mono)
  next
    case 2
    with assms show ?thesis by (simp add: ftrunc_def ceiling_mono)
  next
    case 3
    then have "\<lceil>q\<rceil> \<le> 0" "0 \<le> \<lfloor>q'\<rfloor>" by (simp_all add: ceiling_le_zero less_imp_le)
    moreover from 3 have "ftrunc q = \<lceil>q\<rceil>" "ftrunc q' = \<lfloor>q'\<rfloor>"
      by (simp_all add: ftrunc_def)
    ultimately show ?thesis by linarith
  qed
qed

lemma f_astype_i16_in_range:
  assumes "- 32768 \<le> ftrunc v" "ftrunc v \<le> 32767"
  shows "f_astype_i16 v = ftrunc v"
  using assms by (simp add: f_astype_i16_def Let_def astype_i16_id)

lemma f_astype_i16_outside: "2147483647 < \<bar>ftrunc v\<bar> \<Longrightarrow> f_astype_i16 v = 0"
proof -
  assume a: "2147483647 < \<bar>ftrunc v\<bar>"
  show ?thesis
  proof (cases "- 2147483648 \<le> ftrunc v \<and> ftrunc v \<le> 2147483647")
    case True
    with a have "ftrunc v = - 2147483648" by linarith
    then have "f_astype_i16 v = astype_i16 (- 2147483648)"
      by (simp add: f_astype_i16_def)
    also have "\<dots> = 0" by (simp add: astype_i16_def)
    finally show ?thesis .
  next
    case False
    then show ?thesis unfolding f_astype_i16_def Let_def by (rule if_not_P)
  qed
qed

lemma isqrt_correct:
  assumes "0 \<le> n"
  shows "0 \<le> isqrt n \<and> isqrt n * isqrt n \<le> n \<and> n < (isqrt n + 1) * (isqrt n + 1)"
  using assms
proof (induction n rule: isqrt.induct)
  case (1 n)
  show ?case
  proof (cases "n \<le> 0")
    case True
    with "1.prems" have "n = 0" by simp
    then show ?thesis by (simp add: isqrt.simps)
  next
    case False
    define s where "s = isqrt (n div 4)"
    have "0 \<le> n div 4" using "1.prems" by simp
    from "1.IH" [OF False this]
    have ih: "0 \<le> s" "s * s \<le> n div 4" "n div 4 < (s + 1) * (s + 1)"
      by (simp_all add: s_def)
    have "4 * (s * s) \<le> 4 * (n div 4)" using ih(2) by simp
    also have "\<dots> \<le> n" by presburger
    finally have lo: "(2 * s) * (2 * s) \<le> n" by simp
    have "n div 4 + 1 \<le> (s + 1) * (s + 1)" using ih(3) by simp
    then have "4 * (n div 4) + 4 \<le> 4 * ((s + 1) * (s + 1))" by simp
    moreover have "n < 4 * (n div 4) + 4" by presburger
    ultimately have "n < 4 * ((s + 1) * (s + 1))" by linarith
    also have "\<dots> = (2 * s + 1 + 1) * (2 * s + 1 + 1)" by (simp add: algebra_simps)
    finally have hi: "n < (2 * s + 1 + 1) * (2 * s + 1 + 1)" .
    have eq: "isqrt n = (if (2 * s + 1) * (2 * s + 1) \<le> n then 2 * s + 1 else 2 * s)"
      using False by (subst isqrt.simps) (simp add: Let_def s_def)
    show ?thesis
    proof (cases "(2 * s + 1) * (2 * s + 1) \<le> n")
      case True
      then have "isqrt n = 2 * s + 1" by (simp add: eq)
      with True hi ih(1) show ?thesis by simp
    next
      case False
      then have "isqrt n = 2 * s" by (simp add: eq)
      with False lo ih(1) show ?thesis by simp
    qed
  qed
qed

lemma isqrt_pos:
  assumes "0 < n"
  shows "0 < isqrt n"
proof (rule ccontr)
  assume "\<not> 0 < isqrt n"
  moreover have "0 \<le> isqrt n" "n < (isqrt n + 1) * (isqrt n + 1)"
    using isqrt_correct [of n] assms by simp_all
  ultimately have "isqrt n = 0" "n < (isqrt n + 1) * (isqrt n + 1)" by simp_all
  then have "n < 1" by simp
  with assms show False by simp
qed

lemma fsqrt_zero: "fsqrt 0 = 0"
  by (simp add: fsqrt_def)

lemma fsqrt_pos:
  assumes "0 < q"
  shows "0 < fsqrt q"
proof -
  define e where "e = (binade q - 104) div 2"
  define x where "x = q / 2 powi (2 * e)"
  define m where "m = isqrt \<lfloor>x\<rfloor>"
  define h :: rat where "h = (of_int m + 1 / 2) * (of_int m + 1 / 2)"
  from assms have q: "q \<noteq> 0" "\<bar>q\<bar> = q" by simp_all
  note b = binade_bounds [OF q(1), unfolded q(2)]
  have s: "0 < (2::rat) powi (2 * e)" by (rule zero_less_power_int) simp
  have "2 * e \<le> binade q" by (simp add: e_def)
  then have "(2::rat) powi (2 * e) \<le> 2 powi (binade q)"
    by (intro power_int_increasing) simp_all
  with b(1) have "2 powi (2 * e) \<le> q" by linarith
  then have "1 \<le> x" using s by (simp add: x_def pos_le_divide_eq)
  then have "0 < \<lfloor>x\<rfloor>" by simp
  then have m: "0 < m" unfolding m_def by (rule isqrt_pos)
  have "fsqrt q = of_int (if x < h then m else if h < x then m + 1
                              else if even m then m else m + 1) * 2 powi e"
    using assms by (simp add: fsqrt_def Let_def e_def x_def m_def h_def)
  moreover have "0 < (if x < h then m else if h < x then m + 1
                              else if even m then m else m + 1)"
    using m by simp
  moreover have "0 < (2::rat) powi e" by (rule zero_less_power_int) simp
  ultimately show ?thesis by simp
qed

subsection \<open>The gradient\<close>

lemma f_of_int_small: "\<bar>n\<bar> < 2 ^ 53 \<Longrightarrow> f_of_int n = of_int n"
  by (simp add: f_of_int_def fl_of_int)

lemma f_of_int_consts:
  "f_of_int 0 = 0" "f_of_int 1 = 1" "f_of_int 1000 = 1000" "f_of_int 2000 = 2000"
  using f_of_int_small [of 0] f_of_int_small [of 1] f_of_int_small [of 1000]
    f_of_int_small [of 2000]
  by simp_all

lemma fl_consts: "fl 1 = 1" "fl 1000 = 1000" "fl 2000 = 2000" "fl (- 1000) = - 1000"
  using fl_of_int [of 1] fl_of_int [of 1000] fl_of_int [of 2000] fl_of_int [of "- 1000"]
  by simp_all

lemma f_of_int_mono: "i \<le> j \<Longrightarrow> f_of_int i \<le> f_of_int j"
  by (simp add: f_of_int_def fl_mono)

lemma f_of_int_pos: "0 < n \<Longrightarrow> 0 < f_of_int n"
  by (simp add: f_of_int_def fl_pos)

lemma f_of_int_nonneg: "0 \<le> n \<Longrightarrow> 0 \<le> f_of_int n"
  by (simp add: f_of_int_def fl_nonneg)

lemma f_of_int_double: "f_of_int (2 * n) = 2 * f_of_int n"
  using fl_scale2 [of "of_int n"] by (simp add: f_of_int_def)

lemma gradient_raw_mono:
  assumes "0 < n" "i \<le> j"
  shows "gradient_raw i n \<le> gradient_raw j n"
proof -
  have n: "0 < f_of_int n" using assms(1) by (rule f_of_int_pos)
  have "f_of_int i / f_of_int n \<le> f_of_int j / f_of_int n"
    using f_of_int_mono [OF assms(2)] n by (simp add: divide_right_mono)
  then have "fdiv (f_of_int i) (f_of_int n) \<le> fdiv (f_of_int j) (f_of_int n)"
    unfolding fdiv_def by (rule fl_mono)
  then have "fdiv (f_of_int i) (f_of_int n) * 2000 \<le> fdiv (f_of_int j) (f_of_int n) * 2000"
    by simp
  then have "fmul (fdiv (f_of_int i) (f_of_int n)) (f_of_int 2000)
      \<le> fmul (fdiv (f_of_int j) (f_of_int n)) (f_of_int 2000)"
    unfolding fmul_def f_of_int_consts by (rule fl_mono)
  then have "fmul (fdiv (f_of_int i) (f_of_int n)) (f_of_int 2000) - 1000
      \<le> fmul (fdiv (f_of_int j) (f_of_int n)) (f_of_int 2000) - 1000"
    by simp
  then show ?thesis
    unfolding gradient_raw_def fsub_def f_of_int_consts by (rule fl_mono)
qed

lemma gradient_raw_0: "gradient_raw 0 n = - 1000"
  by (simp add: gradient_raw_def fsub_def fmul_def fdiv_def f_of_int_consts fl_zero fl_consts)

lemma gradient_raw_le:
  assumes "0 < n" "i \<le> n"
  shows "gradient_raw i n \<le> 1000"
proof -
  have n: "0 < f_of_int n" using assms(1) by (rule f_of_int_pos)
  have "f_of_int i / f_of_int n \<le> 1"
    using f_of_int_mono [OF assms(2)] n by simp
  then have "fdiv (f_of_int i) (f_of_int n) \<le> fl 1"
    unfolding fdiv_def by (rule fl_mono)
  then have "fdiv (f_of_int i) (f_of_int n) * 2000 \<le> 2000"
    by (simp add: fl_consts)
  then have "fmul (fdiv (f_of_int i) (f_of_int n)) (f_of_int 2000) \<le> fl 2000"
    unfolding fmul_def f_of_int_consts by (rule fl_mono)
  then have "fmul (fdiv (f_of_int i) (f_of_int n)) (f_of_int 2000) - 1000 \<le> 1000"
    by (simp add: fl_consts)
  then have "gradient_raw i n \<le> fl 1000"
    unfolding gradient_raw_def fsub_def f_of_int_consts by (rule fl_mono)
  then show ?thesis by (simp add: fl_consts)
qed

lemma gradient_raw_upper_half:
  assumes "0 < n" "n \<le> 2 * i"
  shows "0 \<le> gradient_raw i n"
proof -
  have n: "0 < f_of_int n" using assms(1) by (rule f_of_int_pos)
  have "f_of_int n \<le> 2 * f_of_int i"
    using f_of_int_mono [OF assms(2)] by (simp only: f_of_int_double)
  then have "1 / 2 \<le> f_of_int i / f_of_int n"
    using n by (simp add: field_simps)
  then have "fl (1 / 2) \<le> fdiv (f_of_int i) (f_of_int n)"
    unfolding fdiv_def by (rule fl_mono)
  then have "1000 \<le> fdiv (f_of_int i) (f_of_int n) * 2000"
    by (simp add: fl_half)
  then have "fl 1000 \<le> fmul (fdiv (f_of_int i) (f_of_int n)) (f_of_int 2000)"
    unfolding fmul_def f_of_int_consts by (rule fl_mono)
  then have "0 \<le> fmul (fdiv (f_of_int i) (f_of_int n)) (f_of_int 2000) - 1000"
    by (simp add: fl_consts)
  then have "fl 0 \<le> gradient_raw i n"
    unfolding gradient_raw_def fsub_def f_of_int_consts by (rule fl_mono)
  then show ?thesis by (simp add: fl_zero)
qed

lemma gradient_value_eq:
  assumes "0 < n" "0 \<le> i" "i \<le> n"
  shows "gradient_value i n = ftrunc (gradient_raw i n)"
    and "- 1000 \<le> gradient_value i n" and "gradient_value i n \<le> 1000"
proof -
  have "gradient_raw 0 n \<le> gradient_raw i n"
    using assms(1,2) by (rule gradient_raw_mono)
  then have "of_int (- 1000) \<le> gradient_raw i n" by (simp add: gradient_raw_0)
  then have "ftrunc (of_int (- 1000)) \<le> ftrunc (gradient_raw i n)" by (rule ftrunc_mono)
  then have lo: "- 1000 \<le> ftrunc (gradient_raw i n)" by (simp only: ftrunc_of_int)
  have "gradient_raw i n \<le> of_int 1000"
    using gradient_raw_le [OF assms(1,3)] by simp
  then have "ftrunc (gradient_raw i n) \<le> ftrunc (of_int 1000)" by (rule ftrunc_mono)
  then have hi: "ftrunc (gradient_raw i n) \<le> 1000" by (simp only: ftrunc_of_int)
  show eq: "gradient_value i n = ftrunc (gradient_raw i n)"
    unfolding gradient_value_def using lo hi by (intro f_astype_i16_in_range) simp_all
  show "- 1000 \<le> gradient_value i n" "gradient_value i n \<le> 1000"
    using lo hi by (simp_all only: eq)
qed

lemma gradient_value_0: "0 < n \<Longrightarrow> gradient_value 0 n = - 1000"
  using gradient_value_eq(1) [of n 0] ftrunc_of_int [of "- 1000"]
  by (simp add: gradient_raw_0)

lemma gradient_value_mono:
  assumes "0 < n" "0 \<le> i" "i \<le> j" "j \<le> n"
  shows "gradient_value i n \<le> gradient_value j n"
proof -
  have "ftrunc (gradient_raw i n) \<le> ftrunc (gradient_raw j n)"
    using assms(1,3) by (intro ftrunc_mono gradient_raw_mono)
  moreover have "gradient_value i n = ftrunc (gradient_raw i n)"
    using assms by (intro gradient_value_eq) simp_all
  moreover have "gradient_value j n = ftrunc (gradient_raw j n)"
    using assms by (intro gradient_value_eq) simp_all
  ultimately show ?thesis by simp
qed

lemma gradient_value_upper_half:
  assumes "0 < n" "n \<le> 2 * i" "i \<le> n"
  shows "0 \<le> gradient_value i n"
proof -
  have "of_int 0 \<le> gradient_raw i n"
    using gradient_raw_upper_half [OF assms(1,2)] by simp
  then have "ftrunc (of_int 0) \<le> ftrunc (gradient_raw i n)" by (rule ftrunc_mono)
  moreover have "gradient_value i n = ftrunc (gradient_raw i n)"
    using assms by (intro gradient_value_eq) simp_all
  ultimately show ?thesis by (simp only: ftrunc_of_int)
qed

lemma gradient_shape:
  "length (fst (generate_gradient_mask w h)) = nat h"
  "length (snd (generate_gradient_mask w h)) = nat h"
  "y < nat h \<Longrightarrow> length (fst (generate_gradient_mask w h) ! y) = nat w"
  "y < nat h \<Longrightarrow> length (snd (generate_gradient_mask w h) ! y) = nat w"
  by (simp_all add: generate_gradient_mask_def Let_def split_beta length_map_matrix
      length_map_matrix_nth mgrid_shape)

lemma gradient_nth:
  assumes "y < nat h" "x < nat w"
  shows "fst (generate_gradient_mask w h) ! y ! x = gradient_value (int x) w"
    and "snd (generate_gradient_mask w h) ! y ! x = gradient_value (int y) h"
  using assms
  by (simp_all add: generate_gradient_mask_def Let_def split_beta length_map_matrix
      length_map_matrix_nth map_matrix_nth mgrid_shape mgrid_nth gradient_value_def
      gradient_raw_def)

lemma gradient_1_1: "generate_gradient_mask 1 1 = ([[- 1000]], [[- 1000]])"
  by code_simp

subsection \<open>The radial pattern\<close>

lemma fl_idem: "fl (fl q) = fl q"
proof -
  have pos: "fl (fl q) = fl q" if q: "0 < q" for q
  proof -
    let ?s = "(2::rat) powi (binade q - 52)"
    let ?m = "rne (q / ?s)"
    note sb = scaled_bounds [OF q]
    have "rne (of_int (2 ^ 52)) \<le> ?m"
      using sb(1) by (intro rne_mono) simp
    then have lo: "2 ^ 52 \<le> ?m" by (simp only: rne_of_int)
    have "?m \<le> rne (of_int (2 ^ 53))"
      using sb(2) by (intro rne_mono) simp
    then have hi: "?m \<le> 2 ^ 53" by (simp only: rne_of_int)
    have eq: "fl q = of_int ?m * ?s" using q by (rule fl_pos_eq)
    show ?thesis
    proof (cases "?m = 2 ^ 53")
      case True
      have "of_int ?m * ?s = of_int (2 ^ 52) * (2 * ?s)"
        by (simp add: True)
      also have "2 * ?s = 2 powi (binade q - 52 + 1)"
        by (rule pow2_Suc [symmetric])
      finally have "fl q = of_int (2 ^ 52) * 2 powi (binade q - 52 + 1)"
        by (simp only: eq)
      moreover have "fl (of_int (2 ^ 52) * 2 powi (binade q - 52 + 1))
          = of_int (2 ^ 52) * 2 powi (binade q - 52 + 1)"
        by (rule fl_representable_pos) simp_all
      ultimately show ?thesis by simp
    next
      case False
      with hi lo have "0 < ?m" "?m < 2 ^ 53" by simp_all
      then have "fl (of_int ?m * ?s) = of_int ?m * ?s" by (rule fl_representable_pos)
      then show ?thesis by (simp only: eq)
    qed
  qed
  consider "0 < q" | "q = 0" | "q < 0" by linarith
  then show ?thesis
  proof cases
    case 1
    then show ?thesis by (rule pos)
  next
    case 2
    then show ?thesis by (simp add: fl_zero)
  next
    case 3
    then have "fl (fl (- q)) = fl (- q)" by (intro pos) simp
    then show ?thesis by (simp only: fl_minus neg_equal_iff_equal)
  qed
qed

lemma radial_max_dist_pos:
  assumes "0 < w" "0 < h"
  shows "0 < radial_max_dist w h"
proof -
  let ?cx = "fl (of_int w / 2)" and ?cy = "fl (of_int h / 2)"
  have cx: "0 < ?cx" using assms(1) by (intro fl_pos) simp
  have cy: "0 < ?cy" using assms(2) by (intro fl_pos) simp
  have "0 < fmul ?cx ?cx" "0 < fmul ?cy ?cy"
    unfolding fmul_def using cx cy by (simp_all add: fl_pos)
  then have "0 < fadd (fmul ?cx ?cx) (fmul ?cy ?cy)"
    unfolding fadd_def by (intro fl_pos) simp
  then show ?thesis
    unfolding radial_max_dist_def Let_def by (rule fsqrt_pos)
qed

lemma radial_dist_corner: "radial_dist w h 0 0 = radial_max_dist w h"
proof -
  have "fsub (f_of_int 0) (fl q) = - fl q" for q
    by (simp add: fsub_def f_of_int_consts fl_minus fl_idem)
  then show ?thesis
    by (simp add: radial_dist_def radial_max_dist_def Let_def fmul_def)
qed

lemma radial_dist_centre:
  assumes "even w" "even h"
  shows "radial_dist w h (w div 2) (h div 2) = 0"
proof -
  have "(of_int w :: rat) / 2 = of_int (w div 2)" "(of_int h :: rat) / 2 = of_int (h div 2)"
    using assms by (auto elim!: evenE)
  then have "fsub (f_of_int (w div 2)) (fl (of_int w / 2)) = 0"
    "fsub (f_of_int (h div 2)) (fl (of_int h / 2)) = 0"
    by (simp_all add: fsub_def f_of_int_def fl_zero)
  then show ?thesis
    by (simp add: radial_dist_def Let_def fmul_def fadd_def fl_zero fsqrt_zero)
qed

lemma f_astype_i16_zero: "f_astype_i16 0 = 0"
  using f_astype_i16_in_range [of 0] by (simp add: ftrunc_def)

lemma radial_value_corner:
  assumes "0 < w" "0 < h"
  shows "radial_value w h intensity 0 0 = 0"
proof -
  have "radial_max_dist w h \<noteq> 0"
    using radial_max_dist_pos [OF assms] by simp
  then have "fdiv (radial_dist w h 0 0) (radial_max_dist w h) = 1"
    by (simp add: radial_dist_corner fdiv_def fl_consts)
  then show ?thesis
    by (simp add: radial_value_def fsub_def fmul_def f_of_int_consts fl_zero f_astype_i16_zero)
qed

lemma ftrunc_bounds:
  assumes "\<bar>q\<bar> < of_int n"
  shows "- n < ftrunc q" "ftrunc q < n"
proof -
  have "(0::rat) \<le> \<bar>q\<bar>" by simp
  with assms have "(0::rat) < of_int n" by (rule le_less_trans [rotated])
  then have n: "0 < n" by simp
  from assms have q: "q < of_int n" "of_int (- n) < q" by simp_all
  have "- n < ftrunc q \<and> ftrunc q < n"
  proof (cases "0 \<le> q")
    case True
    then have "0 \<le> \<lfloor>q\<rfloor>" by simp
    moreover have "\<lfloor>q\<rfloor> < n" using q(1) by (simp add: floor_less_iff)
    moreover have "ftrunc q = \<lfloor>q\<rfloor>" using True by (simp add: ftrunc_def)
    ultimately show ?thesis using n by linarith
  next
    case False
    then have "\<lceil>q\<rceil> \<le> 0" by (simp add: ceiling_le_zero)
    moreover have "- n < \<lceil>q\<rceil>" using q(2) by (simp only: less_ceiling_iff)
    moreover have "ftrunc q = \<lceil>q\<rceil>" using False by (simp add: ftrunc_def)
    ultimately show ?thesis using n by linarith
  qed
  then show "- n < ftrunc q" "ftrunc q < n" by simp_all
qed

lemma radial_value_centre_cast:
  assumes "even w" "even h" "is_double intensity"
  shows "radial_value w h intensity (w div 2) (h div 2) = f_astype_i16 intensity"
proof -
  have "fdiv (radial_dist w h (w div 2) (h div 2)) (radial_max_dist w h) = 0"
    by (simp add: radial_dist_centre [OF assms(1,2)] fdiv_def fl_zero)
  then have "radial_value w h intensity (w div 2) (h div 2) = f_astype_i16 (fl intensity)"
    by (simp add: radial_value_def fsub_def fmul_def f_of_int_consts fl_consts)
  then show ?thesis
    using assms(3) by (simp add: is_double_def)
qed

lemma radial_value_centre:
  assumes "even w" "even h" "is_double intensity" "\<bar>intensity\<bar> < 32768"
  shows "radial_value w h intensity (w div 2) (h div 2) = ftrunc intensity"
proof -
  have "radial_value w h intensity (w div 2) (h div 2) = f_astype_i16 intensity"
    using assms(1-3) by (rule radial_value_centre_cast)
  also have "\<dots> = ftrunc intensity"
    using ftrunc_bounds [of intensity 32768] assms(4) by (intro f_astype_i16_in_range) simp_all
  finally show ?thesis .
qed

lemma radial_same: "snd (generate_radial_mask w h i) = fst (generate_radial_mask w h i)"
  by (simp add: generate_radial_mask_def Let_def split_beta)

lemma radial_shape:
  "length (fst (generate_radial_mask w h i)) = nat h"
  "y < nat h \<Longrightarrow> length (fst (generate_radial_mask w h i) ! y) = nat w"
  by (simp_all add: generate_radial_mask_def Let_def split_beta length_map_matrix
      length_map_matrix_nth length_zip_matrix length_zip_matrix_nth mgrid_shape)

lemma radial_nth:
  assumes "y < nat h" "x < nat w"
  shows "fst (generate_radial_mask w h i) ! y ! x = radial_value w h i (int x) (int y)"
proof -
  let ?y = "fst (mgrid h w)" and ?x = "snd (mgrid h w)"
  let ?cx = "fl (of_int w / 2)" and ?cy = "fl (of_int h / 2)"
  let ?dx = "map_matrix (\<lambda>v. fsub (f_of_int v) ?cx) ?x"
  let ?dy = "map_matrix (\<lambda>v. fsub (f_of_int v) ?cy) ?y"
  let ?sq = "zip_matrix fadd (zip_matrix fmul ?dx ?dx) (zip_matrix fmul ?dy ?dy)"
  let ?dist = "map_matrix fsqrt ?sq"
  let ?md = "radial_max_dist w h"
  have dx: "length ?dx = nat h" "length (?dx ! y) = nat w"
    "?dx ! y ! x = fsub (f_of_int (int x)) ?cx"
    using assms by (simp_all add: length_map_matrix length_map_matrix_nth map_matrix_nth
        mgrid_shape mgrid_nth)
  have dy: "length ?dy = nat h" "length (?dy ! y) = nat w"
    "?dy ! y ! x = fsub (f_of_int (int y)) ?cy"
    using assms by (simp_all add: length_map_matrix length_map_matrix_nth map_matrix_nth
        mgrid_shape mgrid_nth)
  have xx: "length (zip_matrix fmul ?dx ?dx) = nat h"
    "length (zip_matrix fmul ?dx ?dx ! y) = nat w"
    "zip_matrix fmul ?dx ?dx ! y ! x = fmul (?dx ! y ! x) (?dx ! y ! x)"
    using assms dx(1,2) by (simp_all add: length_zip_matrix length_zip_matrix_nth zip_matrix_nth)
  have yy: "length (zip_matrix fmul ?dy ?dy) = nat h"
    "length (zip_matrix fmul ?dy ?dy ! y) = nat w"
    "zip_matrix fmul ?dy ?dy ! y ! x = fmul (?dy ! y ! x) (?dy ! y ! x)"
    using assms dy(1,2) by (simp_all add: length_zip_matrix length_zip_matrix_nth zip_matrix_nth)
  have sq: "length ?sq = nat h" "length (?sq ! y) = nat w"
    "?sq ! y ! x = fadd (fmul (?dx ! y ! x) (?dx ! y ! x)) (fmul (?dy ! y ! x) (?dy ! y ! x))"
    using assms xx yy by (simp_all add: length_zip_matrix length_zip_matrix_nth zip_matrix_nth)
  have dist: "length ?dist = nat h" "length (?dist ! y) = nat w"
    "?dist ! y ! x = radial_dist w h (int x) (int y)"
    using assms sq dx(3) dy(3)
    by (simp_all add: length_map_matrix length_map_matrix_nth map_matrix_nth radial_dist_def
        Let_def)
  have "fst (generate_radial_mask w h i)
      = map_matrix f_astype_i16
          (map_matrix (\<lambda>v. fmul v i)
            (map_matrix (\<lambda>v. fsub (f_of_int 1) v)
              (map_matrix (\<lambda>v. fdiv v ?md) ?dist)))"
    by (simp add: generate_radial_mask_def Let_def split_beta radial_max_dist_def)
  then show ?thesis
    using assms dist
    by (simp add: length_map_matrix length_map_matrix_nth map_matrix_nth radial_value_def)
qed

lemma radial_3_3_centre: "radial_value 3 3 1000 1 1 = 666"
  by code_simp

lemma radial_max_dist_400_300: "radial_max_dist 400 300 = 250"
  by code_simp

section \<open>Properties of the entry point\<close>

lemma length_ravel:
  assumes "\<forall>y < length m. length (m ! y) = w"
  shows "length (ravel m) = length m * w"
proof -
  have "\<forall>r \<in> set m. length r = w"
    using assms by (auto simp: in_set_conv_nth)
  then have "length (concat m) = length m * w"
    by (induction m) simp_all
  then show ?thesis by (simp add: ravel_def)
qed

lemma ravel_radial_400_300:
  "length (ravel (fst (generate_radial_mask_default 400 300))) = 120000"
  "length (ravel (snd (generate_radial_mask_default 400 300))) = 120000"
proof -
  let ?m = "fst (generate_radial_mask 400 300 1000)"
  have "length (ravel ?m) = length ?m * nat 400"
    by (rule length_ravel) (simp add: radial_shape)
  then show "length (ravel (fst (generate_radial_mask_default 400 300))) = 120000"
    by (simp add: radial_shape generate_radial_mask_default_def)
  then show "length (ravel (snd (generate_radial_mask_default 400 300))) = 120000"
    by (simp add: radial_same generate_radial_mask_default_def)
qed

lemma ravel_checkerboard_400_300:
  "length (ravel (fst (generate_checkerboard_mask_default 400 300))) = 120000"
  "length (ravel (snd (generate_checkerboard_mask_default 400 300))) = 120000"
proof -
  let ?m = "fst (generate_checkerboard_mask 400 300 50)"
  have "length (ravel ?m) = length ?m * nat 400"
    by (rule length_ravel) (simp add: checkerboard_shape)
  then show "length (ravel (fst (generate_checkerboard_mask_default 400 300))) = 120000"
    by (simp add: checkerboard_shape generate_checkerboard_mask_default_def)
  then show "length (ravel (snd (generate_checkerboard_mask_default 400 300))) = 120000"
    by (simp add: checkerboard_same generate_checkerboard_mask_default_def)
qed

lemma ravel_gradient_400_300:
  "length (ravel (fst (generate_gradient_mask 400 300))) = 120000"
  "length (ravel (snd (generate_gradient_mask 400 300))) = 120000"
proof -
  let ?a = "fst (generate_gradient_mask 400 300)" and ?b = "snd (generate_gradient_mask 400 300)"
  have "length (ravel ?a) = length ?a * nat 400"
    by (rule length_ravel) (simp add: gradient_shape)
  then show "length (ravel ?a) = 120000"
    by (simp add: gradient_shape)
  have "length (ravel ?b) = length ?b * nat 400"
    by (rule length_ravel) (simp add: gradient_shape)
  then show "length (ravel ?b) = 120000"
    by (simp add: gradient_shape)
qed

lemma build_sac_400_300:
  assumes "length A = 120000" "length B = 120000"
  shows "\<exists>bs. build_sac A B 400 300 = Inr bs \<and> length bs = 480024"
proof -
  have "\<exists>bs. build_sac A B 400 300 = Inr bs"
    unfolding build_sac_Inr_iff using assms by (simp add: fits_I_def)
  then obtain bs where e: "build_sac A B 400 300 = Inr bs" ..
  have "length bs = 24 + 2 * length A + 2 * length B"
    unfolding build_sac_InrD(6) [OF e] length_sac_layout length_to_c_contiguous_i16 ..
  with assms e show ?thesis by simp
qed

lemma str_int_consts: "str_int 480024 = ''480024''" "str_int 400 = ''400''" "str_int 300 = ''300''"
  by code_simp+

lemma world_print:
  "files (print s w) = files w" "dirs (print s w) = dirs w"
  "stdout (print s w) = stdout w @ [s]"
  by (simp_all add: print_def)

lemma world_mkdir:
  "files (mkdir_exist_ok d w) = files w" "dirs (mkdir_exist_ok d w) = insert d (dirs w)"
  "stdout (mkdir_exist_ok d w) = stdout w"
  by (simp_all add: mkdir_exist_ok_def)

lemma world_write:
  "files (write_file p b w) = (files w)(p \<mapsto> b)" "dirs (write_file p b w) = dirs w"
  "stdout (write_file p b w) = stdout w"
  by (simp_all add: write_file_def)

lemma write_patterns_Cons:
  assumes "build_sac (ravel a) (ravel b) width height = Inr bs"
  shows "write_patterns ((name, a, b) # ps) width height d w =
     write_patterns ps width height d
       (print (check_mark @ '' Created '' @ (d @ ''/'' @ ''test_mask_'' @ name @ ''.sac'')
                 @ '' ('' @ str_int (int (length bs)) @ '' bytes, ''
                 @ str_int width @ ''x'' @ str_int height @ '')'')
          (write_file (d @ ''/'' @ ''test_mask_'' @ name @ ''.sac'') bs w))"
  using assms by (simp add: Let_def)

lemmas world_simps = world_print world_mkdir world_write

section \<open>The encoder: size, layout, round trip and failures\<close>

text \<open>
  Claim C1, as amended. The specification counts a 20-byte header; the format
  \<open><4sBBBBIIII\<close> packs 4 + 4 + 16 = 24 bytes. For non-zero \<open>width\<close> and
  \<open>height\<close> and two arrays of \<open>width * height\<close> elements each, the byte string
  returned by \<open>build_sac\<close> has \<open>24 + 2 * width * height * 2\<close> bytes; for 400 by 300
  that is 480024 bytes.
\<close>

theorem build_sac_size:
  assumes "width \<noteq> 0" and "height \<noteq> 0"
    and "int (length A) = width * height" and "int (length B) = width * height"
    and "build_sac A B width height = Inr bs"
  shows "int (length bs) = 24 + 2 * width * height * 2
    \<and> (width = 400 \<and> height = 300 \<longrightarrow> length bs = 480024)"
proof -
  have "length bs = 24 + 2 * length A + 2 * length B"
    unfolding build_sac_InrD(6) [OF assms(5)] length_sac_layout length_to_c_contiguous_i16 ..
  then have "int (length bs) = 24 + 2 * int (length A) + 2 * int (length B)"
    by simp
  then have g: "int (length bs) = 24 + 2 * width * height * 2"
    by (simp add: assms(3,4))
  then have "length bs = 480024" if "width = 400 \<and> height = 300"
    using that by simp
  with g show ?thesis by blast
qed

text \<open>
  The instance 400 by 300 with two arrays of 120000 elements: \<open>build_sac\<close> returns, and
  the result has 480024 bytes.
\<close>

theorem build_sac_size_witness:
  "\<exists>bs. build_sac (replicate 120000 0) (replicate 120000 0) 400 300 = Inr bs
     \<and> int (length bs) = 24 + 2 * 400 * 300 * 2 \<and> length bs = 480024"
proof -
  let ?A = "replicate 120000 (0::int)"
  have l: "int (length ?A) = 400 * 300" by simp
  have "\<exists>bs. build_sac ?A ?A 400 300 = Inr bs"
    unfolding build_sac_Inr_iff by (simp add: fits_I_def)
  then obtain bs where e: "build_sac ?A ?A 400 300 = Inr bs" ..
  from build_sac_size [OF _ _ l l e] have "int (length bs) = 24 + 2 * 400 * 300 * 2 \<and> length bs = 480024"
    by simp
  with e show ?thesis by blast
qed

text \<open>
  The size stated in the specification fails already for 1 by 1 arrays: the result has 28
  bytes, not \<open>20 + 2 * 1 * 1 * 2 = 24\<close>.
\<close>

theorem build_sac_size_20_counterexample:
  "build_sac [0] [0] 1 1
     = Inr [83, 65, 67, 49, 0, 1, 2, 0, 1, 0, 0, 0, 1, 0, 0, 0, 1, 0, 0, 0, 1, 0, 0, 0, 0, 0, 0, 0]
   \<and> int (length [0::int]) = 1 * 1
   \<and> int (length [83, 65, 67, 49, 0, 1, 2, 0, 1, 0, 0, 0, 1, 0, 0, 0, 1, 0, 0, 0, 1, 0, 0, 0,
         0, 0, 0, 0 :: byte]) \<noteq> 20 + 2 * 1 * 1 * 2"
proof -
  have "build_sac [0] [0] 1 1
     = Inr [83, 65, 67, 49, 0, 1, 2, 0, 1, 0, 0, 0, 1, 0, 0, 0, 1, 0, 0, 0, 1, 0, 0, 0, 0, 0, 0, 0]"
    by code_simp
  then show ?thesis by simp
qed

text \<open>
  Claim C2. Whenever \<open>build_sac\<close> returns, its result starts with the four bytes
  \<open>SAC1\<close>, then the flags byte 0, the dtype code 1, the array count 2 and the reserved
  byte 0; bytes 8 to 23 are four unsigned little-endian 32-bit fields holding the element
  count of A, the element count of B, the width and the height; the bytes from offset 24
  on are exactly the elements of A and then of B, two bytes each, and nothing follows
  them. Read as a little-endian two's complement value, the two bytes of an element give
  the int16 value that the element of A or B is converted to, which is the element itself
  when it is in the int16 range.
\<close>

theorem build_sac_layout:
  assumes "build_sac A B width height = Inr bs"
  shows "take 4 bs = map of_char ''SAC1'' \<and> bs ! 4 = 0 \<and> bs ! 5 = 1 \<and> bs ! 6 = 2 \<and> bs ! 7 = 0
    \<and> read_u_le (take 4 (drop 8 bs)) = length A
    \<and> read_u_le (take 4 (drop 12 bs)) = length B
    \<and> int (read_u_le (take 4 (drop 16 bs))) = width
    \<and> int (read_u_le (take 4 (drop 20 bs))) = height
    \<and> drop 24 bs = tobytes (to_c_contiguous_i16 A) @ tobytes (to_c_contiguous_i16 B)
    \<and> length bs = 24 + 2 * length A + 2 * length B
    \<and> (\<forall>i<length A. read_i16_le (take 2 (drop (24 + 2 * i) bs)) = sint (to_c_contiguous_i16 A ! i))
    \<and> (\<forall>i<length B. read_i16_le (take 2 (drop (24 + 2 * length A + 2 * i) bs))
           = sint (to_c_contiguous_i16 B ! i))
    \<and> (\<forall>i<length A. read_i16_le (take 2 (drop (24 + 2 * i) bs))
           = sint (word_of_int (A ! i) :: i16))
    \<and> (\<forall>i<length B. read_i16_le (take 2 (drop (24 + 2 * length A + 2 * i) bs))
           = sint (word_of_int (B ! i) :: i16))
    \<and> (\<forall>i<length A. - 32768 \<le> A ! i \<and> A ! i \<le> 32767 \<longrightarrow>
           read_i16_le (take 2 (drop (24 + 2 * i) bs)) = A ! i)
    \<and> (\<forall>i<length B. - 32768 \<le> B ! i \<and> B ! i \<le> 32767 \<longrightarrow>
           read_i16_le (take 2 (drop (24 + 2 * length A + 2 * i) bs)) = B ! i)"
proof -
  let ?a = "to_c_contiguous_i16 A" and ?b = "to_c_contiguous_i16 B"
  note d = build_sac_InrD [OF assms]
  note f = sac_header_fields [OF d(6)]
  have magic: "take 4 bs = map of_char ''SAC1''"
    using f(1) by simp
  have la: "read_u_le (take 4 (drop 8 bs)) = length A"
    using read_u_le_pack_I [OF d(2)] by (simp only: f(6) of_nat_eq_iff)
  have lb: "read_u_le (take 4 (drop 12 bs)) = length B"
    using read_u_le_pack_I [OF d(3)] by (simp only: f(7) of_nat_eq_iff)
  have w: "int (read_u_le (take 4 (drop 16 bs))) = width"
    using read_u_le_pack_I [OF d(4)] by (simp only: f(8))
  have h: "int (read_u_le (take 4 (drop 20 bs))) = height"
    using read_u_le_pack_I [OF d(5)] by (simp only: f(9))
  have body: "drop 24 bs = tobytes ?a @ tobytes ?b"
    by (rule f(10))
  have len: "length bs = 24 + 2 * length A + 2 * length B"
    unfolding d(6) length_sac_layout length_to_c_contiguous_i16 ..
  have ea: "read_i16_le (take 2 (drop (24 + 2 * i) bs)) = sint (?a ! i)" if "i < length A" for i
  proof -
    have "drop (24 + 2 * i) bs = drop (2 * i) (drop 24 bs)"
      by (simp add: add.commute)
    then have "take 2 (drop (24 + 2 * i) bs) = le_bytes 2 (uint (?a ! i))"
      using that tobytes_nth [of i ?a "tobytes ?b"]
      by (simp only: body length_to_c_contiguous_i16)
    then show ?thesis by (simp only: read_i16_le_le_bytes)
  qed
  have eb: "read_i16_le (take 2 (drop (24 + 2 * length A + 2 * i) bs)) = sint (?b ! i)"
    if "i < length B" for i
  proof -
    have "drop (24 + 2 * length A + 2 * i) bs = drop (2 * i) (drop (2 * length A) (drop 24 bs))"
      by (simp add: add.commute add.left_commute)
    also have "drop (2 * length A) (drop 24 bs) = tobytes ?b @ []"
      by (simp add: body length_tobytes length_to_c_contiguous_i16)
    finally have "take 2 (drop (24 + 2 * length A + 2 * i) bs) = le_bytes 2 (uint (?b ! i))"
      using that tobytes_nth [of i ?b "[]"]
      by (simp only: length_to_c_contiguous_i16)
    then show ?thesis by (simp only: read_i16_le_le_bytes)
  qed
  have ca: "?a ! i = word_of_int (A ! i)" if "i < length A" for i
    using that by (simp add: to_c_contiguous_i16_def)
  have cb: "?b ! i = word_of_int (B ! i)" if "i < length B" for i
    using that by (simp add: to_c_contiguous_i16_def)
  have ea': "\<forall>i<length A. read_i16_le (take 2 (drop (24 + 2 * i) bs)) = sint (?a ! i)"
    using ea by blast
  have eb': "\<forall>i<length B. read_i16_le (take 2 (drop (24 + 2 * length A + 2 * i) bs))
      = sint (?b ! i)"
    using eb by blast
  have wa: "\<forall>i<length A. read_i16_le (take 2 (drop (24 + 2 * i) bs))
      = sint (word_of_int (A ! i) :: i16)"
    using ea ca by simp
  have wb: "\<forall>i<length B. read_i16_le (take 2 (drop (24 + 2 * length A + 2 * i) bs))
      = sint (word_of_int (B ! i) :: i16)"
    using eb cb by simp
  have ia: "\<forall>i<length A. - 32768 \<le> A ! i \<and> A ! i \<le> 32767 \<longrightarrow>
      read_i16_le (take 2 (drop (24 + 2 * i) bs)) = A ! i"
    using wa by (simp add: sint_i16_of_int)
  have ib: "\<forall>i<length B. - 32768 \<le> B ! i \<and> B ! i \<le> 32767 \<longrightarrow>
      read_i16_le (take 2 (drop (24 + 2 * length A + 2 * i) bs)) = B ! i"
    using wb by (simp add: sint_i16_of_int)
  show ?thesis
    by (intro conjI magic f(2-5) la lb w h body len ea' eb' wa wb ia ib)
qed


theorem build_sac_layout_witness:
  "build_sac [1000, - 1000, 7] [3, 70000, - 2] 3 1
     = Inr [83, 65, 67, 49, 0, 1, 2, 0, 3, 0, 0, 0, 3, 0, 0, 0, 3, 0, 0, 0, 1, 0, 0, 0,
            232, 3, 24, 252, 7, 0, 3, 0, 112, 17, 254, 255]
   \<and> (\<exists>bs. build_sac [1000, - 1000, 7] [3, 70000, - 2] 3 1 = Inr bs
         \<and> take 4 bs = map of_char ''SAC1'' \<and> bs ! 4 = 0 \<and> bs ! 5 = 1 \<and> bs ! 6 = 2 \<and> bs ! 7 = 0
         \<and> read_u_le (take 4 (drop 8 bs)) = 3
         \<and> read_u_le (take 4 (drop 12 bs)) = 3
         \<and> int (read_u_le (take 4 (drop 16 bs))) = 3
         \<and> int (read_u_le (take 4 (drop 20 bs))) = 1
         \<and> length bs = 36
         \<and> read_i16_le (take 2 (drop 24 bs)) = 1000
         \<and> read_i16_le (take 2 (drop 26 bs)) = - 1000
         \<and> read_i16_le (take 2 (drop 28 bs)) = 7
         \<and> read_i16_le (take 2 (drop 30 bs)) = 3
         \<and> read_i16_le (take 2 (drop 32 bs)) = 4464
         \<and> read_i16_le (take 2 (drop 34 bs)) = - 2)"
proof -
  let ?A = "[1000, - 1000, 7] :: int list" and ?B = "[3, 70000, - 2] :: int list"
  let ?bs = "[83, 65, 67, 49, 0, 1, 2, 0, 3, 0, 0, 0, 3, 0, 0, 0, 3, 0, 0, 0, 1, 0, 0, 0,
            232, 3, 24, 252, 7, 0, 3, 0, 112, 17, 254, 255] :: byte list"
  have e: "build_sac ?A ?B 3 1 = Inr ?bs"
    by code_simp
  note L = build_sac_layout [OF e]
  from L have a: "\<forall>i<length ?A. - 32768 \<le> ?A ! i \<and> ?A ! i \<le> 32767 \<longrightarrow>
        read_i16_le (take 2 (drop (24 + 2 * i) ?bs)) = ?A ! i"
    by (elim conjE) assumption
  from L have b: "\<forall>i<length ?B. - 32768 \<le> ?B ! i \<and> ?B ! i \<le> 32767 \<longrightarrow>
        read_i16_le (take 2 (drop (24 + 2 * length ?A + 2 * i) ?bs)) = ?B ! i"
    by (elim conjE) assumption
  from L have c: "\<forall>i<length ?B. read_i16_le (take 2 (drop (24 + 2 * length ?A + 2 * i) ?bs))
        = sint (word_of_int (?B ! i) :: i16)"
    by (elim conjE) assumption
  from a [rule_format, of 0] a [rule_format, of 1] a [rule_format, of 2]
    b [rule_format, of 0] c [rule_format, of 1] b [rule_format, of 2]
  have "read_i16_le (take 2 (drop 24 ?bs)) = 1000
         \<and> read_i16_le (take 2 (drop 26 ?bs)) = - 1000
         \<and> read_i16_le (take 2 (drop 28 ?bs)) = 7
         \<and> read_i16_le (take 2 (drop 30 ?bs)) = 3
         \<and> read_i16_le (take 2 (drop 32 ?bs)) = 4464
         \<and> read_i16_le (take 2 (drop 34 ?bs)) = - 2"
    by simp
  moreover from L have "take 4 ?bs = map of_char ''SAC1'' \<and> ?bs ! 4 = 0 \<and> ?bs ! 5 = 1 \<and> ?bs ! 6 = 2 \<and> ?bs ! 7 = 0
         \<and> read_u_le (take 4 (drop 8 ?bs)) = length ?A
         \<and> read_u_le (take 4 (drop 12 ?bs)) = length ?B
         \<and> int (read_u_le (take 4 (drop 16 ?bs))) = 3
         \<and> int (read_u_le (take 4 (drop 20 ?bs))) = 1
         \<and> length ?bs = 24 + 2 * length ?A + 2 * length ?B"
    by blast
  then have "take 4 ?bs = map of_char ''SAC1'' \<and> ?bs ! 4 = 0 \<and> ?bs ! 5 = 1 \<and> ?bs ! 6 = 2 \<and> ?bs ! 7 = 0
         \<and> read_u_le (take 4 (drop 8 ?bs)) = 3
         \<and> read_u_le (take 4 (drop 12 ?bs)) = 3
         \<and> int (read_u_le (take 4 (drop 16 ?bs))) = 3
         \<and> int (read_u_le (take 4 (drop 20 ?bs))) = 1
         \<and> length ?bs = 36"
    by simp
  ultimately show ?thesis using e by blast
qed

text \<open>
  Claim C3. The reference decoder, applied to what \<open>build_sac\<close> returns, gives back
  the element sequences of A and B after their conversion to int16; for arrays whose
  elements are int16 values already, it gives back A and B themselves.
\<close>

theorem reference_decode_build_sac:
  assumes "build_sac A B width height = Inr bs"
  shows "reference_decode bs
           = Some (map sint (to_c_contiguous_i16 A), map sint (to_c_contiguous_i16 B))
    \<and> ((\<forall>v \<in> set A \<union> set B. - 32768 \<le> v \<and> v \<le> 32767)
          \<longrightarrow> reference_decode bs = Some (A, B))"
proof -
  let ?a = "to_c_contiguous_i16 A" and ?b = "to_c_contiguous_i16 B"
  note d = build_sac_InrD [OF assms]
  note f = sac_header_fields [OF d(6)]
  have la: "read_u_le (take 4 (drop 8 bs)) = length ?a"
    using read_u_le_pack_I [OF d(2)] by (simp only: f(6) of_nat_eq_iff length_to_c_contiguous_i16)
  have lb: "read_u_le (take 4 (drop 12 bs)) = length ?b"
    using read_u_le_pack_I [OF d(3)] by (simp only: f(7) of_nat_eq_iff length_to_c_contiguous_i16)
  have len: "length bs = 24 + 2 * length ?a + 2 * length ?b"
    unfolding d(6) length_sac_layout ..
  have body: "drop header_size bs = tobytes ?a @ tobytes ?b"
    unfolding header_size_def by (rule f(10))
  have ra: "read_i16s (length ?a) (tobytes ?a @ tobytes ?b) = map sint ?a"
    by (rule read_i16s_tobytes)
  have "drop (2 * length ?a) (tobytes ?a @ tobytes ?b) = tobytes ?b @ []"
    by (simp add: length_tobytes)
  then have rb: "read_i16s (length ?b) (drop (2 * length ?a) (tobytes ?a @ tobytes ?b)) = map sint ?b"
    by (simp only: read_i16s_tobytes)
  have dec: "reference_decode bs = Some (map sint ?a, map sint ?b)"
    unfolding reference_decode_def Let_def la lb body ra rb
    using len by (simp add: header_size_def length_tobytes)
  moreover have "reference_decode bs = Some (A, B)"
    if "\<forall>v \<in> set A \<union> set B. - 32768 \<le> v \<and> v \<le> 32767"
  proof -
    from that have "map sint ?a = A" "map sint ?b = B"
      by (simp_all add: map_sint_to_c_contiguous_i16)
    with dec show ?thesis by simp
  qed
  ultimately show ?thesis by blast
qed

theorem reference_decode_build_sac_witness:
  "build_sac [5, - 7, 32767] [- 32768, 40000, 0] 3 1
     = Inr [83, 65, 67, 49, 0, 1, 2, 0, 3, 0, 0, 0, 3, 0, 0, 0, 3, 0, 0, 0, 1, 0, 0, 0,
            5, 0, 249, 255, 255, 127, 0, 128, 64, 156, 0, 0]
   \<and> reference_decode [83, 65, 67, 49, 0, 1, 2, 0, 3, 0, 0, 0, 3, 0, 0, 0, 3, 0, 0, 0, 1, 0, 0, 0,
            5, 0, 249, 255, 255, 127, 0, 128, 64, 156, 0, 0]
       = Some ([5, - 7, 32767], [- 32768, - 25536, 0])"
proof -
  have e: "build_sac [5, - 7, 32767] [- 32768, 40000, 0] 3 1
     = Inr [83, 65, 67, 49, 0, 1, 2, 0, 3, 0, 0, 0, 3, 0, 0, 0, 3, 0, 0, 0, 1, 0, 0, 0,
            5, 0, 249, 255, 255, 127, 0, 128, 64, 156, 0, 0]"
    by code_simp
  from reference_decode_build_sac [OF e] e show ?thesis
    by (simp add: to_c_contiguous_i16_def)
qed

text \<open>
  Claim C4, as amended. For non-zero \<open>width\<close> and \<open>height\<close>, \<open>build_sac\<close> raises
  the assertion failure if and only if the element count of A or of B differs from
  \<open>width * height\<close>. When both counts are equal to \<open>width * height\<close>, it returns
  normally if and only if \<open>width\<close> and \<open>height\<close> are positive and \<open>width * height\<close>
  is at most 4294967295; otherwise \<open>struct.pack\<close> raises \<open>struct.error\<close>.
\<close>

theorem build_sac_assertion:
  assumes "width \<noteq> 0" and "height \<noteq> 0"
  shows "((\<exists>m. build_sac A B width height = Inl (AssertionError m))
            \<longleftrightarrow> int (length A) \<noteq> width * height \<or> int (length B) \<noteq> width * height)
    \<and> (int (length A) = width * height \<and> int (length B) = width * height \<longrightarrow>
          ((\<exists>bs. build_sac A B width height = Inr bs)
              \<longleftrightarrow> 0 < width \<and> 0 < height \<and> width * height \<le> 4294967295)
        \<and> (build_sac A B width height = Inl StructError
              \<longleftrightarrow> \<not> (0 < width \<and> 0 < height \<and> width * height \<le> 4294967295)))"
proof -
  have r: "fits_I (int (length A)) \<and> fits_I (int (length B)) \<and> fits_I width \<and> fits_I height
        \<longleftrightarrow> 0 < width \<and> 0 < height \<and> width * height \<le> 4294967295"
    if l: "int (length A) = width * height" "int (length B) = width * height"
  proof
    assume "fits_I (int (length A)) \<and> fits_I (int (length B)) \<and> fits_I width \<and> fits_I height"
    with assms l show "0 < width \<and> 0 < height \<and> width * height \<le> 4294967295"
      by (simp add: fits_I_def)
  next
    assume p: "0 < width \<and> 0 < height \<and> width * height \<le> 4294967295"
    then have "width * 1 \<le> width * height" "1 * height \<le> width * height"
      by (intro mult_left_mono mult_right_mono; simp)+
    then have "width \<le> width * height" "height \<le> width * height"
      by simp_all
    with p have "width \<le> 4294967295" "height \<le> 4294967295"
      by (blast intro: order_trans)+
    with p l show "fits_I (int (length A)) \<and> fits_I (int (length B)) \<and> fits_I width \<and> fits_I height"
      by (simp add: fits_I_def)
  qed
  have 1: "(\<exists>m. build_sac A B width height = Inl (AssertionError m))
            \<longleftrightarrow> int (length A) \<noteq> width * height \<or> int (length B) \<noteq> width * height"
    using assms by (simp only: build_sac_AssertionError_iff simp_thms)
  have 2: "(\<exists>bs. build_sac A B width height = Inr bs)
              \<longleftrightarrow> 0 < width \<and> 0 < height \<and> width * height \<le> 4294967295"
    if l: "int (length A) = width * height \<and> int (length B) = width * height"
    using l r by (simp only: build_sac_Inr_iff) blast
  have 3: "build_sac A B width height = Inl StructError
              \<longleftrightarrow> \<not> (0 < width \<and> 0 < height \<and> width * height \<le> 4294967295)"
    if l: "int (length A) = width * height \<and> int (length B) = width * height"
    using l r by (simp only: build_sac_StructError_iff) blast
  from 1 2 3 show ?thesis by blast
qed

theorem build_sac_assertion_witness:
  "(\<exists>m. build_sac [1, 2, 3] [4, 5, 6] 3 1 = Inl (AssertionError m)) = False
   \<and> (\<exists>bs. build_sac [1, 2, 3] [4, 5, 6] 3 1 = Inr bs)
   \<and> build_sac [1, 2, 3] [4, 5, 6] 3 1 \<noteq> Inl StructError
   \<and> (\<exists>m. build_sac [1, 2, 3] [4, 5] 3 1 = Inl (AssertionError m))"
  using build_sac_assertion [of 3 1 "[1, 2, 3]" "[4, 5, 6]"]
    build_sac_assertion [of 3 1 "[1, 2, 3]" "[4, 5]"]
  by simp

text \<open>
  With \<open>width = height = -1\<close> and two one-element arrays, both counts equal
  \<open>width * height\<close>, and the call does not return: the header cannot be packed.
\<close>

theorem build_sac_returns_counterexample:
  "(-1 :: int) \<noteq> 0 \<and> int (length [0 :: int]) = (-1) * (-1)
   \<and> build_sac [0] [0] (-1) (-1) = Inl StructError"
  by code_simp

text \<open>
  Claim C9, as amended. If \<open>width\<close> or \<open>height\<close> is 0, \<open>build_sac\<close> makes no length
  check: it never raises the assertion failure, whatever the element counts. It returns
  normally if and only if the two element counts, the width and the height all lie in
  the range of an unsigned 32-bit field; otherwise \<open>struct.pack\<close> raises
  \<open>struct.error\<close>. When it returns, the header holds the width and the height that were
  supplied and the two element counts.
\<close>

theorem build_sac_unchecked:
  assumes "width = 0 \<or> height = 0"
  shows "(\<forall>m. build_sac A B width height \<noteq> Inl (AssertionError m))
    \<and> ((\<exists>bs. build_sac A B width height = Inr bs)
          \<longleftrightarrow> int (length A) \<le> 4294967295 \<and> int (length B) \<le> 4294967295
              \<and> 0 \<le> width \<and> width \<le> 4294967295 \<and> 0 \<le> height \<and> height \<le> 4294967295)
    \<and> (build_sac A B width height = Inl StructError
          \<longleftrightarrow> \<not> (int (length A) \<le> 4294967295 \<and> int (length B) \<le> 4294967295
              \<and> 0 \<le> width \<and> width \<le> 4294967295 \<and> 0 \<le> height \<and> height \<le> 4294967295))
    \<and> (\<forall>bs. build_sac A B width height = Inr bs \<longrightarrow>
          int (read_u_le (take 4 (drop 16 bs))) = width
          \<and> int (read_u_le (take 4 (drop 20 bs))) = height
          \<and> read_u_le (take 4 (drop 8 bs)) = length A
          \<and> read_u_le (take 4 (drop 12 bs)) = length B)"
proof -
  have 1: "build_sac A B width height \<noteq> Inl (AssertionError m)" for m
    using assms build_sac_AssertionError_iff [of A B width height] by blast
  have r: "fits_I (int (length A)) \<and> fits_I (int (length B)) \<and> fits_I width \<and> fits_I height
      \<longleftrightarrow> int (length A) \<le> 4294967295 \<and> int (length B) \<le> 4294967295
              \<and> 0 \<le> width \<and> width \<le> 4294967295 \<and> 0 \<le> height \<and> height \<le> 4294967295"
    by (simp add: fits_I_def)
  have 2: "(\<exists>bs. build_sac A B width height = Inr bs)
          \<longleftrightarrow> int (length A) \<le> 4294967295 \<and> int (length B) \<le> 4294967295
              \<and> 0 \<le> width \<and> width \<le> 4294967295 \<and> 0 \<le> height \<and> height \<le> 4294967295"
    using assms r by (simp only: build_sac_Inr_iff) blast
  have 3: "build_sac A B width height = Inl StructError
          \<longleftrightarrow> \<not> (int (length A) \<le> 4294967295 \<and> int (length B) \<le> 4294967295
              \<and> 0 \<le> width \<and> width \<le> 4294967295 \<and> 0 \<le> height \<and> height \<le> 4294967295)"
    using assms r by (simp only: build_sac_StructError_iff) blast
  have 4: "int (read_u_le (take 4 (drop 16 bs))) = width
          \<and> int (read_u_le (take 4 (drop 20 bs))) = height
          \<and> read_u_le (take 4 (drop 8 bs)) = length A
          \<and> read_u_le (take 4 (drop 12 bs)) = length B"
    if e: "build_sac A B width height = Inr bs" for bs
  proof -
    note d = build_sac_InrD [OF e]
    note f = sac_header_fields [OF d(6)]
    have "read_u_le (take 4 (drop 8 bs)) = length A"
      using read_u_le_pack_I [OF d(2)] by (simp only: f(6) of_nat_eq_iff)
    moreover have "read_u_le (take 4 (drop 12 bs)) = length B"
      using read_u_le_pack_I [OF d(3)] by (simp only: f(7) of_nat_eq_iff)
    moreover have "int (read_u_le (take 4 (drop 16 bs))) = width"
      using read_u_le_pack_I [OF d(4)] by (simp only: f(8))
    moreover have "int (read_u_le (take 4 (drop 20 bs))) = height"
      using read_u_le_pack_I [OF d(5)] by (simp only: f(9))
    ultimately show ?thesis by blast
  qed
  from 1 2 3 4 show ?thesis by blast
qed

theorem build_sac_unchecked_witness:
  "build_sac_default [1, 2, 3] [7] = build_sac [1, 2, 3] [7] 0 0
   \<and> (\<exists>bs. build_sac [1, 2, 3] [7] 0 0 = Inr bs)
   \<and> (\<exists>bs. build_sac [1, 2, 3] [7] 0 5 = Inr bs
         \<and> int (read_u_le (take 4 (drop 16 bs))) = 0
         \<and> int (read_u_le (take 4 (drop 20 bs))) = 5
         \<and> read_u_le (take 4 (drop 8 bs)) = 3
         \<and> read_u_le (take 4 (drop 12 bs)) = 1)"
proof -
  have a: "\<exists>bs. build_sac [1, 2, 3] [7] 0 0 = Inr bs"
    using build_sac_unchecked [of 0 0 "[1, 2, 3]" "[7]"] by simp
  have "\<exists>bs. build_sac [1, 2, 3] [7] 0 5 = Inr bs"
    using build_sac_unchecked [of 0 5 "[1, 2, 3]" "[7]"] by simp
  then obtain bs where e: "build_sac [1, 2, 3] [7] 0 5 = Inr bs" ..
  with build_sac_unchecked [of 0 5 "[1, 2, 3]" "[7]"]
  have "int (read_u_le (take 4 (drop 16 bs))) = 0
         \<and> int (read_u_le (take 4 (drop 20 bs))) = 5
         \<and> read_u_le (take 4 (drop 8 bs)) = 3
         \<and> read_u_le (take 4 (drop 12 bs)) = 1"
    by simp
  with e a show ?thesis
    by (auto simp: build_sac_default_def)
qed

text \<open>With \<open>width = 0\<close> and \<open>height = -1\<close> the call does not return.\<close>

theorem build_sac_unchecked_counterexample:
  "build_sac [] [] 0 (-1) = Inl StructError"
  by code_simp



section \<open>The pattern generators\<close>

text \<open>
  Claim C5. For positive \<open>width\<close>, \<open>height\<close> and \<open>square_size\<close>,
  \<open>generate_checkerboard_mask\<close> returns the same array twice, of shape
  \<open>height \<times> width\<close>; the value at pixel \<open>(x, y)\<close> (row \<open>y\<close>, column \<open>x\<close>) is
  \<open>((x // square_size + y // square_size) % 2) * 1000\<close>, hence 0 or 1000; the pixels
  \<open>(0, 0)\<close> and \<open>(square_size, square_size)\<close> have the same value, and the pixel
  \<open>(0, 0)\<close> has the value 0 while \<open>(square_size, 0)\<close> has the value 1000 (for the
  pixels that lie inside the array).
\<close>

theorem generate_checkerboard_mask_pattern:
  assumes "0 < width" and "0 < height" and "0 < square_size"
  shows "fst (generate_checkerboard_mask width height square_size)
           = snd (generate_checkerboard_mask width height square_size)
    \<and> length (fst (generate_checkerboard_mask width height square_size)) = nat height
    \<and> (\<forall>y < nat height.
          length (fst (generate_checkerboard_mask width height square_size) ! y) = nat width)
    \<and> (\<forall>y < nat height. \<forall>x < nat width.
          fst (generate_checkerboard_mask width height square_size) ! y ! x
            = ((int x div square_size + int y div square_size) mod 2) * 1000
          \<and> fst (generate_checkerboard_mask width height square_size) ! y ! x \<in> {0, 1000})
    \<and> (square_size < width \<and> square_size < height \<longrightarrow>
          fst (generate_checkerboard_mask width height square_size) ! 0 ! 0
            = fst (generate_checkerboard_mask width height square_size)
                ! nat square_size ! nat square_size)
    \<and> (square_size < width \<longrightarrow>
          fst (generate_checkerboard_mask width height square_size) ! 0 ! 0 = 0
          \<and> fst (generate_checkerboard_mask width height square_size) ! 0 ! nat square_size = 1000)"
proof -
  let ?A = "fst (generate_checkerboard_mask width height square_size)"
  note s = \<open>0 < square_size\<close>
  have same: "?A = snd (generate_checkerboard_mask width height square_size)"
    by (simp add: checkerboard_same)
  have rows: "length ?A = nat height"
    by (rule checkerboard_shape)
  have cols: "\<forall>y < nat height. length (?A ! y) = nat width"
    by (simp add: checkerboard_shape)
  have val: "?A ! y ! x = ((int x div square_size + int y div square_size) mod 2) * 1000
      \<and> ?A ! y ! x \<in> {0, 1000}" if "y < nat height" "x < nat width" for x y
    using checkerboard_nth [OF that, of square_size]
      checker_value_range [of "int x div square_size + int y div square_size"]
    by auto
  have origin: "?A ! 0 ! 0 = 0"
    using assms(1,2) checkerboard_nth [of 0 height 0 width square_size] by simp
  have diag: "?A ! nat square_size ! nat square_size = 0"
    if "square_size < width" "square_size < height"
  proof -
    have "?A ! nat square_size ! nat square_size
        = (int (nat square_size) div square_size + int (nat square_size) div square_size) mod 2 * 1000"
      using that s by (intro checkerboard_nth) simp_all
    also have "int (nat square_size) div square_size = 1"
      using s by simp
    finally show ?thesis by simp
  qed
  have right: "?A ! 0 ! nat square_size = 1000" if "square_size < width"
  proof -
    have "?A ! 0 ! nat square_size
        = (int (nat square_size) div square_size + int 0 div square_size) mod 2 * 1000"
      using that s assms(2) by (intro checkerboard_nth) simp_all
    also have "int (nat square_size) div square_size = 1"
      using s by simp
    finally show ?thesis by simp
  qed
  have phase: "?A ! 0 ! 0 = ?A ! nat square_size ! nat square_size"
    if "square_size < width \<and> square_size < height"
    using that origin diag by simp
  from same rows cols val origin phase right show ?thesis
    by blast
qed

theorem generate_checkerboard_mask_pattern_witness:
  "generate_checkerboard_mask 4 3 2
     = ([[0, 0, 1000, 1000], [0, 0, 1000, 1000], [1000, 1000, 0, 0]],
        [[0, 0, 1000, 1000], [0, 0, 1000, 1000], [1000, 1000, 0, 0]])
   \<and> fst (generate_checkerboard_mask 4 3 2) ! 0 ! 0
       = fst (generate_checkerboard_mask 4 3 2) ! 2 ! 2
   \<and> fst (generate_checkerboard_mask 4 3 2) ! 0 ! 0 = 0
   \<and> fst (generate_checkerboard_mask 4 3 2) ! 0 ! 2 = 1000
   \<and> fst (generate_checkerboard_mask_default 120 60) ! 0 ! 0 = 0
   \<and> fst (generate_checkerboard_mask_default 120 60) ! 0 ! 50 = 1000
   \<and> fst (generate_checkerboard_mask_default 120 60) ! 50 ! 50 = 0"
proof -
  have e: "generate_checkerboard_mask 4 3 2
     = ([[0, 0, 1000, 1000], [0, 0, 1000, 1000], [1000, 1000, 0, 0]],
        [[0, 0, 1000, 1000], [0, 0, 1000, 1000], [1000, 1000, 0, 0]])"
    by code_simp
  have h: "(0::int) < 4" "(0::int) < 3" "(0::int) < 2" "(0::int) < 120" "(0::int) < 60" "(0::int) < 50"
    by simp_all
  have lt: "(2::int) < 4 \<and> (2::int) < 3" "(2::int) < 4"
    "(50::int) < 120 \<and> (50::int) < 60" "(50::int) < 120"
    by simp_all
  have n: "nat 2 = 2" "nat 50 = 50"
    by simp_all
  from generate_checkerboard_mask_pattern [OF h(1-3)] lt(1,2)
  have "fst (generate_checkerboard_mask 4 3 2) ! 0 ! 0
          = fst (generate_checkerboard_mask 4 3 2) ! nat 2 ! nat 2
     \<and> fst (generate_checkerboard_mask 4 3 2) ! 0 ! 0 = 0
     \<and> fst (generate_checkerboard_mask 4 3 2) ! 0 ! nat 2 = 1000"
    by blast
  moreover from generate_checkerboard_mask_pattern [OF h(4-6)] lt(3,4)
  have "fst (generate_checkerboard_mask 120 60 50) ! 0 ! 0
          = fst (generate_checkerboard_mask 120 60 50) ! nat 50 ! nat 50
     \<and> fst (generate_checkerboard_mask 120 60 50) ! 0 ! 0 = 0
     \<and> fst (generate_checkerboard_mask 120 60 50) ! 0 ! nat 50 = 1000"
    by blast
  ultimately show ?thesis
    unfolding n generate_checkerboard_mask_default_def using e by simp
qed

text \<open>
  Claim C6, as amended. For positive \<open>width\<close> and \<open>height\<close>,
  \<open>generate_gradient_mask\<close> returns two arrays A and B of shape \<open>height \<times> width\<close>.
  The value of A at pixel \<open>(x, y)\<close> is the int16 truncation of the double
  \<open>(x / width) * 2000 - 1000\<close>: it lies between -1000 and 1000, is -1000 at \<open>x = 0\<close>,
  does not decrease along \<open>x\<close> and is constant along \<open>y\<close>; at \<open>x = width - 1\<close> it is
  at least 0 when \<open>width\<close> is at least 2. B is the same ramp along \<open>y\<close> with
  \<open>height\<close>. A and B differ exactly when \<open>width\<close> or \<open>height\<close> is greater than 1.
\<close>

theorem generate_gradient_mask_ramps:
  assumes "0 < width" and "0 < height"
  shows "let A = fst (generate_gradient_mask width height);
             B = snd (generate_gradient_mask width height)
         in length A = nat height \<and> length B = nat height
          \<and> (\<forall>y < nat height. length (A ! y) = nat width \<and> length (B ! y) = nat width)
          \<and> (\<forall>y < nat height. \<forall>x < nat width.
                A ! y ! x = gradient_value (int x) width
              \<and> B ! y ! x = gradient_value (int y) height
              \<and> - 1000 \<le> A ! y ! x \<and> A ! y ! x \<le> 1000
              \<and> - 1000 \<le> B ! y ! x \<and> B ! y ! x \<le> 1000)
          \<and> (\<forall>y < nat height. A ! y ! 0 = - 1000)
          \<and> (\<forall>x < nat width. B ! 0 ! x = - 1000)
          \<and> (\<forall>y < nat height. \<forall>x < nat width. \<forall>x' < nat width.
                x \<le> x' \<longrightarrow> A ! y ! x \<le> A ! y ! x')
          \<and> (\<forall>y < nat height. \<forall>y' < nat height. \<forall>x < nat width.
                y \<le> y' \<longrightarrow> B ! y ! x \<le> B ! y' ! x)
          \<and> (\<forall>y < nat height. \<forall>y' < nat height. \<forall>x < nat width. A ! y ! x = A ! y' ! x)
          \<and> (\<forall>y < nat height. \<forall>x < nat width. \<forall>x' < nat width. B ! y ! x = B ! y ! x')
          \<and> (1 < width \<longrightarrow> (\<forall>y < nat height. 0 \<le> A ! y ! (nat width - 1)))
          \<and> (1 < height \<longrightarrow> (\<forall>x < nat width. 0 \<le> B ! (nat height - 1) ! x))
          \<and> (A \<noteq> B \<longleftrightarrow> 1 < width \<or> 1 < height)"
proof -
  define A where "A = fst (generate_gradient_mask width height)"
  define B where "B = snd (generate_gradient_mask width height)"
  note w = \<open>0 < width\<close> and h = \<open>0 < height\<close>
  have shape: "length A = nat height" "length B = nat height"
    "\<forall>y < nat height. length (A ! y) = nat width \<and> length (B ! y) = nat width"
    by (simp_all add: A_def B_def gradient_shape)
  have a: "A ! y ! x = gradient_value (int x) width"
    and b: "B ! y ! x = gradient_value (int y) height"
    if "y < nat height" "x < nat width" for x y
    using that by (simp_all add: A_def B_def gradient_nth)
  have ra: "- 1000 \<le> gradient_value (int x) width \<and> gradient_value (int x) width \<le> 1000"
    if "x < nat width" for x
    using that w gradient_value_eq(2,3) [of width "int x"] by simp
  have rb: "- 1000 \<le> gradient_value (int y) height \<and> gradient_value (int y) height \<le> 1000"
    if "y < nat height" for y
    using that h gradient_value_eq(2,3) [of height "int y"] by simp
  have vals: "\<forall>y < nat height. \<forall>x < nat width.
                A ! y ! x = gradient_value (int x) width
              \<and> B ! y ! x = gradient_value (int y) height
              \<and> - 1000 \<le> A ! y ! x \<and> A ! y ! x \<le> 1000
              \<and> - 1000 \<le> B ! y ! x \<and> B ! y ! x \<le> 1000"
    using a b ra rb by simp
  have left: "\<forall>y < nat height. A ! y ! 0 = - 1000"
    using w a [of _ 0] by (simp add: gradient_value_0)
  have top: "\<forall>x < nat width. B ! 0 ! x = - 1000"
    using h b [of 0] by (simp add: gradient_value_0)
  have ma: "A ! y ! x \<le> A ! y ! x'"
    if "y < nat height" "x < nat width" "x' < nat width" "x \<le> x'" for x x' y
    using that w by (simp add: a gradient_value_mono)
  have mb: "B ! y ! x \<le> B ! y' ! x"
    if "y < nat height" "y' < nat height" "x < nat width" "y \<le> y'" for x y y'
    using that h by (simp add: b gradient_value_mono)
  have ca: "A ! y ! x = A ! y' ! x"
    if "y < nat height" "y' < nat height" "x < nat width" for x y y'
    using that by (simp add: a)
  have cb: "B ! y ! x = B ! y ! x'"
    if "y < nat height" "x < nat width" "x' < nat width" for x x' y
    using that by (simp add: b)
  have right: "0 \<le> A ! y ! (nat width - 1)" if "1 < width" "y < nat height" for y
  proof -
    have "A ! y ! (nat width - 1) = gradient_value (int (nat width - 1)) width"
      using that by (intro a) simp_all
    also have "int (nat width - 1) = width - 1" using that by simp
    finally show ?thesis
      using that by (simp add: gradient_value_upper_half)
  qed
  have bottom: "0 \<le> B ! (nat height - 1) ! x" if "1 < height" "x < nat width" for x
  proof -
    have "B ! (nat height - 1) ! x = gradient_value (int (nat height - 1)) height"
      using that by (intro b) simp_all
    also have "int (nat height - 1) = height - 1" using that by simp
    finally show ?thesis
      using that by (simp add: gradient_value_upper_half)
  qed
  have differ: "A \<noteq> B \<longleftrightarrow> 1 < width \<or> 1 < height"
  proof
    assume ne: "A \<noteq> B"
    show "1 < width \<or> 1 < height"
    proof (rule ccontr)
      assume "\<not> (1 < width \<or> 1 < height)"
      with w h have "width = 1" "height = 1" by simp_all
      then have "A = B" by (simp add: A_def B_def gradient_1_1)
      with ne show False ..
    qed
  next
    assume "1 < width \<or> 1 < height"
    then show "A \<noteq> B"
    proof
      assume 1: "1 < width"
      have "0 \<le> A ! 0 ! (nat width - 1)" using 1 h by (intro right) simp_all
      moreover have "B ! 0 ! (nat width - 1) = - 1000" using top 1 by simp
      ultimately show ?thesis by auto
    next
      assume 1: "1 < height"
      have "0 \<le> B ! (nat height - 1) ! 0" using 1 w by (intro bottom) simp_all
      moreover have "A ! (nat height - 1) ! 0 = - 1000" using left 1 by simp
      ultimately show ?thesis by auto
    qed
  qed
  have ma': "\<forall>y < nat height. \<forall>x < nat width. \<forall>x' < nat width.
                x \<le> x' \<longrightarrow> A ! y ! x \<le> A ! y ! x'"
    using ma by blast
  have mb': "\<forall>y < nat height. \<forall>y' < nat height. \<forall>x < nat width.
                y \<le> y' \<longrightarrow> B ! y ! x \<le> B ! y' ! x"
    using mb by blast
  have ca': "\<forall>y < nat height. \<forall>y' < nat height. \<forall>x < nat width. A ! y ! x = A ! y' ! x"
    using ca by blast
  have cb': "\<forall>y < nat height. \<forall>x < nat width. \<forall>x' < nat width. B ! y ! x = B ! y ! x'"
    using cb by blast
  have right': "1 < width \<longrightarrow> (\<forall>y < nat height. 0 \<le> A ! y ! (nat width - 1))"
    using right by blast
  have bottom': "1 < height \<longrightarrow> (\<forall>x < nat width. 0 \<le> B ! (nat height - 1) ! x)"
    using bottom by blast
  show ?thesis
    unfolding Let_def A_def [symmetric] B_def [symmetric]
    by (intro conjI shape vals left top ma' mb' ca' cb' right' bottom' differ)
qed



text \<open>
  For 400 by 300 the horizontal ramp runs from -1000 at \<open>x = 0\<close> to 995 at \<open>x = 399\<close>.
\<close>

theorem generate_gradient_mask_ramps_witness:
  "generate_gradient_mask 2 2 = ([[- 1000, 0], [- 1000, 0]], [[- 1000, - 1000], [0, 0]])
   \<and> fst (generate_gradient_mask 2 2) \<noteq> snd (generate_gradient_mask 2 2)
   \<and> fst (generate_gradient_mask 400 300) ! 0 ! 0 = - 1000
   \<and> fst (generate_gradient_mask 400 300) ! 0 ! 399 = 995
   \<and> fst (generate_gradient_mask 400 300) \<noteq> snd (generate_gradient_mask 400 300)"
proof -
  have e: "generate_gradient_mask 2 2 = ([[- 1000, 0], [- 1000, 0]], [[- 1000, - 1000], [0, 0]])"
    by code_simp
  have p: "(0::int) < 2" "(0::int) < 400" "(0::int) < 300"
    by simp_all
  have q: "(1::int) < 2 \<or> (1::int) < 2" "(1::int) < 400 \<or> (1::int) < 300"
    by simp_all
  note small = generate_gradient_mask_ramps [OF p(1,1), unfolded Let_def]
  note large = generate_gradient_mask_ramps [OF p(2,3), unfolded Let_def]
  from small have "fst (generate_gradient_mask 2 2) \<noteq> snd (generate_gradient_mask 2 2)
      \<longleftrightarrow> 1 < (2::int) \<or> 1 < (2::int)"
    by (elim conjE) assumption
  then have s: "fst (generate_gradient_mask 2 2) \<noteq> snd (generate_gradient_mask 2 2)"
    using q(1) by (rule iffD2)
  from large have "fst (generate_gradient_mask 400 300) \<noteq> snd (generate_gradient_mask 400 300)
      \<longleftrightarrow> 1 < (400::int) \<or> 1 < (300::int)"
    by (elim conjE) assumption
  then have l: "fst (generate_gradient_mask 400 300) \<noteq> snd (generate_gradient_mask 400 300)"
    using q(2) by (rule iffD2)
  from large have v: "\<forall>y < nat 300. \<forall>x < nat 400.
        fst (generate_gradient_mask 400 300) ! y ! x = gradient_value (int x) 400
      \<and> snd (generate_gradient_mask 400 300) ! y ! x = gradient_value (int y) 300
      \<and> - 1000 \<le> fst (generate_gradient_mask 400 300) ! y ! x
      \<and> fst (generate_gradient_mask 400 300) ! y ! x \<le> 1000
      \<and> - 1000 \<le> snd (generate_gradient_mask 400 300) ! y ! x
      \<and> snd (generate_gradient_mask 400 300) ! y ! x \<le> 1000"
    by (elim conjE) assumption
  from large have z: "\<forall>y < nat 300. fst (generate_gradient_mask 400 300) ! y ! 0 = - 1000"
    by (elim conjE) assumption
  have g: "gradient_value 399 400 = 995"
    by code_simp
  have "fst (generate_gradient_mask 400 300) ! 0 ! 0 = - 1000"
    using z [rule_format, of 0] by simp
  moreover have "fst (generate_gradient_mask 400 300) ! 0 ! 399 = 995"
    using v [rule_format, of 0 399] g by simp
  ultimately show ?thesis using e s l by (intro conjI)
qed


text \<open>
  For a single pixel the value at \<open>x = width - 1 = 0\<close> is -1000, and the two arrays are
  equal.
\<close>

theorem generate_gradient_mask_small_counterexample:
  "generate_gradient_mask 1 1 = ([[- 1000]], [[- 1000]])
   \<and> fst (generate_gradient_mask 1 1) ! 0 ! (1 - 1) = - 1000
   \<and> fst (generate_gradient_mask 1 1) = snd (generate_gradient_mask 1 1)"
  using gradient_1_1 by simp

text \<open>
  Claim C7, as amended. For positive \<open>width\<close> and \<open>height\<close> and a finite double
  \<open>intensity\<close> (neither an infinity nor a NaN), \<open>generate_radial_mask\<close> returns the
  same array twice, of shape \<open>height \<times> width\<close>. The corner pixel \<open>(0, 0)\<close> lies at
  exactly the distance \<open>max_dist\<close> from the centre \<open>(width / 2, height / 2)\<close>, and its
  value is 0. When \<open>width\<close> and \<open>height\<close> are even, the pixel
  \<open>(width / 2, height / 2)\<close> lies at distance 0, and its value is the intensity cast
  to int16: the intensity with its fraction cut off, provided that
  \<open>\<bar>intensity\<bar> < 32768\<close>.
\<close>

theorem generate_radial_mask_centre_corner:
  assumes "0 < width" and "0 < height" and "is_double intensity"
  shows "let A = fst (generate_radial_mask width height intensity);
             B = snd (generate_radial_mask width height intensity)
         in A = B \<and> length A = nat height
          \<and> (\<forall>y < nat height. length (A ! y) = nat width)
          \<and> (\<forall>y < nat height. \<forall>x < nat width.
                A ! y ! x = radial_value width height intensity (int x) (int y))
          \<and> 0 < radial_max_dist width height
          \<and> radial_dist width height 0 0 = radial_max_dist width height
          \<and> A ! 0 ! 0 = 0
          \<and> (even width \<and> even height \<longrightarrow>
                radial_dist width height (width div 2) (height div 2) = 0)
          \<and> (even width \<and> even height \<longrightarrow>
                A ! nat (height div 2) ! nat (width div 2) = f_astype_i16 intensity)
          \<and> (even width \<and> even height \<and> \<bar>intensity\<bar> < 32768 \<longrightarrow>
                A ! nat (height div 2) ! nat (width div 2) = ftrunc intensity)"
proof -
  define A where "A = fst (generate_radial_mask width height intensity)"
  define B where "B = snd (generate_radial_mask width height intensity)"
  note w = \<open>0 < width\<close> and h = \<open>0 < height\<close>
  have same: "A = B"
    by (simp add: A_def B_def radial_same)
  have rows: "length A = nat height"
    by (simp add: A_def radial_shape)
  have cols: "\<forall>y < nat height. length (A ! y) = nat width"
    by (simp add: A_def radial_shape)
  have elems: "\<forall>y < nat height. \<forall>x < nat width.
      A ! y ! x = radial_value width height intensity (int x) (int y)"
    by (simp add: A_def radial_nth)
  have md: "0 < radial_max_dist width height"
    using w h by (rule radial_max_dist_pos)
  have far: "radial_dist width height 0 0 = radial_max_dist width height"
    by (rule radial_dist_corner)
  have "A ! 0 ! 0 = radial_value width height intensity (int 0) (int 0)"
    using w h by (simp add: A_def radial_nth)
  then have corner: "A ! 0 ! 0 = 0"
    using w h by (simp add: radial_value_corner)
  have cd: "even width \<and> even height \<longrightarrow>
      radial_dist width height (width div 2) (height div 2) = 0"
    by (simp add: radial_dist_centre)
  have cast: "even width \<and> even height \<longrightarrow>
      A ! nat (height div 2) ! nat (width div 2) = f_astype_i16 intensity"
  proof
    assume a: "even width \<and> even height"
    have "nat (height div 2) < nat height" "nat (width div 2) < nat width"
      using w h by simp_all
    then have "A ! nat (height div 2) ! nat (width div 2)
        = radial_value width height intensity (int (nat (width div 2))) (int (nat (height div 2)))"
      unfolding A_def by (rule radial_nth)
    also have "int (nat (width div 2)) = width div 2" using w by simp
    also have "int (nat (height div 2)) = height div 2" using h by simp
    finally show "A ! nat (height div 2) ! nat (width div 2) = f_astype_i16 intensity"
      using a assms(3) by (simp add: radial_value_centre_cast)
  qed
  have centre: "even width \<and> even height \<and> \<bar>intensity\<bar> < 32768 \<longrightarrow>
      A ! nat (height div 2) ! nat (width div 2) = ftrunc intensity"
  proof
    assume a: "even width \<and> even height \<and> \<bar>intensity\<bar> < 32768"
    have "nat (height div 2) < nat height" "nat (width div 2) < nat width"
      using w h by simp_all
    then have "A ! nat (height div 2) ! nat (width div 2)
        = radial_value width height intensity (int (nat (width div 2))) (int (nat (height div 2)))"
      unfolding A_def by (rule radial_nth)
    also have "int (nat (width div 2)) = width div 2" using w by simp
    also have "int (nat (height div 2)) = height div 2" using h by simp
    finally show "A ! nat (height div 2) ! nat (width div 2) = ftrunc intensity"
      using a assms(3) by (simp add: radial_value_centre)
  qed
  show ?thesis
    unfolding Let_def A_def [symmetric] B_def [symmetric]
    by (intro conjI same rows cols elems md far corner cd cast centre)
qed


text \<open>
  The reference run, 400 by 300 with the default intensity: \<open>max_dist\<close> is 250, the
  corner \<open>(0, 0)\<close> is at distance 250 and has the value 0, and the pixel \<open>(200, 150)\<close>
  is at distance 0 and has the value 1000. An intensity beyond the int32 range does not
  survive the cast: with the intensity 3000000000 the pixel \<open>(2, 2)\<close> of a 4 by 4 mask
  has the value 0.
\<close>

theorem generate_radial_mask_centre_corner_witness:
  "is_double 1000
   \<and> fst (generate_radial_mask_default 400 300) = snd (generate_radial_mask_default 400 300)
   \<and> radial_max_dist 400 300 = 250
   \<and> radial_dist 400 300 0 0 = 250
   \<and> fst (generate_radial_mask_default 400 300) ! 0 ! 0 = 0
   \<and> radial_dist 400 300 200 150 = 0
   \<and> fst (generate_radial_mask_default 400 300) ! 150 ! 200 = 1000
   \<and> is_double 3000000000
   \<and> fst (generate_radial_mask 4 4 3000000000) ! 2 ! 2 = 0"
proof -
  have big: "is_double 3000000000"
    using fl_of_int [of 3000000000] by (simp add: is_double_def)
  have p4: "(0::int) < 4" by simp
  note T4 = generate_radial_mask_centre_corner [OF p4 p4 big, unfolded Let_def]
  from T4 have "even (4::int) \<and> even (4::int) \<longrightarrow>
      fst (generate_radial_mask 4 4 3000000000) ! nat (4 div 2) ! nat (4 div 2)
        = f_astype_i16 3000000000"
    by (elim conjE) assumption
  then have large: "fst (generate_radial_mask 4 4 3000000000) ! 2 ! 2 = 0"
    by (simp add: f_astype_i16_def ftrunc_def)
  have d: "is_double 1000" by (simp add: is_double_def fl_consts)
  have p: "(0::int) < 400" "(0::int) < 300" by simp_all
  note T = generate_radial_mask_centre_corner [OF p d, unfolded Let_def]
  from T have same: "fst (generate_radial_mask 400 300 1000) = snd (generate_radial_mask 400 300 1000)"
    by (elim conjE) assumption
  from T have far: "radial_dist 400 300 0 0 = radial_max_dist 400 300"
    by (elim conjE) assumption
  from T have corner: "fst (generate_radial_mask 400 300 1000) ! 0 ! 0 = 0"
    by (elim conjE) assumption
  from T have cd: "even (400::int) \<and> even (300::int) \<longrightarrow>
      radial_dist 400 300 (400 div 2) (300 div 2) = 0"
    by (elim conjE) assumption
  from T have centre: "even (400::int) \<and> even (300::int) \<and> \<bar>1000 :: rat\<bar> < 32768 \<longrightarrow>
      fst (generate_radial_mask 400 300 1000) ! nat (300 div 2) ! nat (400 div 2) = ftrunc 1000"
    by (elim conjE) assumption
  have "radial_dist 400 300 200 150 = 0" using cd by simp
  moreover have "fst (generate_radial_mask 400 300 1000) ! 150 ! 200 = 1000"
    using centre by (simp add: ftrunc_def)
  ultimately show ?thesis
    using d same far corner big large
    by (simp add: generate_radial_mask_default_def radial_max_dist_400_300)
qed


text \<open>
  For odd dimensions no pixel lies at the centre that the generator uses: the middle
  pixel \<open>(1, 1)\<close> of a 3 by 3 mask of intensity 1000 has the value 666, and the only
  pixel of a 1 by 1 mask has the value 0.
\<close>

theorem generate_radial_mask_odd_counterexample:
  "fst (generate_radial_mask 3 3 1000) ! 1 ! 1 = 666
   \<and> fst (generate_radial_mask 1 1 1000) ! 0 ! 0 = 0"
proof -
  have "fst (generate_radial_mask 3 3 1000) ! 1 ! 1 = radial_value 3 3 1000 (int 1) (int 1)"
    by (rule radial_nth) simp_all
  moreover have "fst (generate_radial_mask 1 1 1000) ! 0 ! 0 = radial_value 1 1 1000 (int 0) (int 0)"
    by (rule radial_nth) simp_all
  ultimately show ?thesis
    by (simp add: radial_3_3_centre radial_value_corner)
qed

section \<open>The entry point without the imaging library\<close>

text \<open>
  Claim C8. When PIL cannot be imported, \<open>main\<close> still returns normally. It writes the
  three SAC files, each the result of \<open>build_sac\<close> for its pattern, and they are the
  files that the run with PIL writes: the two runs leave the same files but for
  \<open>test_data/test_image.png\<close>, which only the run with PIL writes. The run without PIL
  prints, after the three lines for the SAC files, that PIL is not available and that
  the test image is skipped, and then the two closing lines.
\<close>

theorem main_without_pil:
  "\<exists>radial checkerboard gradient.
      build_sac (ravel (fst (generate_radial_mask_default 400 300)))
                (ravel (snd (generate_radial_mask_default 400 300))) 400 300 = Inr radial
    \<and> build_sac (ravel (fst (generate_checkerboard_mask_default 400 300)))
                (ravel (snd (generate_checkerboard_mask_default 400 300))) 400 300
          = Inr checkerboard
    \<and> build_sac (ravel (fst (generate_gradient_mask 400 300)))
                (ravel (snd (generate_gradient_mask 400 300))) 400 300 = Inr gradient
    \<and> fst (main None w) = Inr ()
    \<and> fst (main (Some save) w) = Inr ()
    \<and> files (snd (main None w))
          = (files w)(''test_data/test_mask_radial.sac'' \<mapsto> radial,
                      ''test_data/test_mask_checkerboard.sac'' \<mapsto> checkerboard,
                      ''test_data/test_mask_gradient.sac'' \<mapsto> gradient)
    \<and> files (snd (main (Some save) w))
          = (files (snd (main None w)))(''test_data/test_image.png'' \<mapsto> save (test_image 400 300))
    \<and> dirs (snd (main None w)) = insert ''test_data'' (dirs w)
    \<and> dirs (snd (main (Some save) w)) = dirs (snd (main None w))
    \<and> stdout (snd (main None w))
          = stdout w @
            [''Generating test SAC files...'',
             check_mark @ '' Created test_data/test_mask_radial.sac (480024 bytes, 400x300)'',
             check_mark @ '' Created test_data/test_mask_checkerboard.sac (480024 bytes, 400x300)'',
             check_mark @ '' Created test_data/test_mask_gradient.sac (480024 bytes, 400x300)'',
             CHR 0x0A # ''Generating test image...'',
             warning_sign @ '' PIL not available, skipping test image generation'',
             ''  Install with: pip install Pillow'',
             CHR 0x0A # ''Test files ready in ./test_data/'',
             ''Upload test_image.png and any test_mask_*.sac to the test page!'']"
proof -
  obtain s1 where s1: "build_sac (ravel (fst (generate_radial_mask_default 400 300)))
      (ravel (snd (generate_radial_mask_default 400 300))) 400 300 = Inr s1"
    and l1: "length s1 = 480024"
    using build_sac_400_300 [OF ravel_radial_400_300] by blast
  obtain s2 where s2: "build_sac (ravel (fst (generate_checkerboard_mask_default 400 300)))
      (ravel (snd (generate_checkerboard_mask_default 400 300))) 400 300 = Inr s2"
    and l2: "length s2 = 480024"
    using build_sac_400_300 [OF ravel_checkerboard_400_300] by blast
  obtain s3 where s3: "build_sac (ravel (fst (generate_gradient_mask 400 300)))
      (ravel (snd (generate_gradient_mask 400 300))) 400 300 = Inr s3"
    and l3: "length s3 = 480024"
    using build_sac_400_300 [OF ravel_gradient_400_300] by blast
  define w2 where "w2 = mkdir_exist_ok ''test_data'' (print ''Generating test SAC files...'' w)"
  define w3 where "w3 =
    print (check_mark @ '' Created test_data/test_mask_gradient.sac (480024 bytes, 400x300)'')
      (write_file ''test_data/test_mask_gradient.sac'' s3
    (print (check_mark @ '' Created test_data/test_mask_checkerboard.sac (480024 bytes, 400x300)'')
      (write_file ''test_data/test_mask_checkerboard.sac'' s2
    (print (check_mark @ '' Created test_data/test_mask_radial.sac (480024 bytes, 400x300)'')
      (write_file ''test_data/test_mask_radial.sac'' s1 w2)))))"
  have p: "generate_radial_mask_default 400 300
      = (fst (generate_radial_mask_default 400 300), snd (generate_radial_mask_default 400 300))"
    "generate_checkerboard_mask_default 400 300
      = (fst (generate_checkerboard_mask_default 400 300),
         snd (generate_checkerboard_mask_default 400 300))"
    "generate_gradient_mask 400 300
      = (fst (generate_gradient_mask 400 300), snd (generate_gradient_mask 400 300))"
    by simp_all
  have loop: "write_patterns
      [(''radial'', generate_radial_mask_default 400 300),
       (''checkerboard'', generate_checkerboard_mask_default 400 300),
       (''gradient'', generate_gradient_mask 400 300)] 400 300 ''test_data'' w2 = (Inr (), w3)"
    apply (subst p(1), subst p(2), subst p(3))
    apply (simp only: write_patterns_Cons [OF s1] write_patterns_Cons [OF s2]
        write_patterns_Cons [OF s3] write_patterns.simps(1) l1 l2 l3)
    apply (simp add: str_int_consts w3_def)
    done
  have absent: "main None w = (Inr (),
      print ''Upload test_image.png and any test_mask_*.sac to the test page!''
       (print (CHR 0x0A # ''Test files ready in ./test_data/'')
         (print ''  Install with: pip install Pillow''
           (print (warning_sign @ '' PIL not available, skipping test image generation'')
             (print (CHR 0x0A # ''Generating test image...'') w3)))))"
    unfolding main_def Let_def w2_def [symmetric] loop by simp
  have present: "main (Some save) w = (Inr (),
      print ''Upload test_image.png and any test_mask_*.sac to the test page!''
       (print (CHR 0x0A # ''Test files ready in ./test_data/'')
         (print (check_mark @ '' Created test_data/test_image.png (400x300)'')
           (write_file ''test_data/test_image.png'' (save (test_image 400 300))
             (print (CHR 0x0A # ''Generating test image...'') w3)))))"
    unfolding main_def Let_def w2_def [symmetric] loop by (simp add: str_int_consts)
  have f3: "files w3 = (files w)(''test_data/test_mask_radial.sac'' \<mapsto> s1,
                      ''test_data/test_mask_checkerboard.sac'' \<mapsto> s2,
                      ''test_data/test_mask_gradient.sac'' \<mapsto> s3)"
    by (simp add: w3_def w2_def world_simps)
  have d3: "dirs w3 = insert ''test_data'' (dirs w)"
    by (simp add: w3_def w2_def world_simps)
  have o3: "stdout w3 = stdout w @
            [''Generating test SAC files...'',
             check_mark @ '' Created test_data/test_mask_radial.sac (480024 bytes, 400x300)'',
             check_mark @ '' Created test_data/test_mask_checkerboard.sac (480024 bytes, 400x300)'',
             check_mark @ '' Created test_data/test_mask_gradient.sac (480024 bytes, 400x300)'']"
    by (simp add: w3_def w2_def world_simps)
  have "fst (main None w) = Inr ()" "fst (main (Some save) w) = Inr ()"
    by (simp_all add: absent present)
  moreover have "files (snd (main None w))
          = (files w)(''test_data/test_mask_radial.sac'' \<mapsto> s1,
                      ''test_data/test_mask_checkerboard.sac'' \<mapsto> s2,
                      ''test_data/test_mask_gradient.sac'' \<mapsto> s3)"
    by (simp add: absent world_simps f3)
  moreover have "files (snd (main (Some save) w))
          = (files (snd (main None w)))(''test_data/test_image.png'' \<mapsto> save (test_image 400 300))"
    by (simp add: absent present world_simps)
  moreover have "dirs (snd (main None w)) = insert ''test_data'' (dirs w)"
    "dirs (snd (main (Some save) w)) = dirs (snd (main None w))"
    by (simp_all add: absent present world_simps d3)
  moreover have "stdout (snd (main None w))
          = stdout w @
            [''Generating test SAC files...'',
             check_mark @ '' Created test_data/test_mask_radial.sac (480024 bytes, 400x300)'',
             check_mark @ '' Created test_data/test_mask_checkerboard.sac (480024 bytes, 400x300)'',
             check_mark @ '' Created test_data/test_mask_gradient.sac (480024 bytes, 400x300)'',
             CHR 0x0A # ''Generating test image...'',
             warning_sign @ '' PIL not available, skipping test image generation'',
             ''  Install with: pip install Pillow'',
             CHR 0x0A # ''Test files ready in ./test_data/'',
             ''Upload test_image.png and any test_mask_*.sac to the test page!'']"
    by (simp add: absent world_simps o3)
  ultimately show ?thesis
    using s1 s2 s3 by blast
qed

end
